theory Spec2Isabelle
  imports Main "HOL-Library.Char_ord" "HOL-Library.List_Lexorder" "HOL-Library.AList"
begin

section \<open>Values, tables and errors\<close>

text \<open>
  The scalars held in table cells and graph attributes. \<open>VNull\<close> stands for a missing
  value (Arrow null, Python \<open>None\<close>, the NaN that pandas and networkx fill in for an
  absent attribute). Floating point numbers other than that NaN are not modelled.
\<close>

datatype val = VInt int | VStr string | VNull

text \<open>
  The order of \<open>ORDER BY\<close>: numbers ascending, strings bytewise lexicographic, and
  nulls last (the default of the embedded SQL engine). A column of a table is typed, so
  the comparison of a number with a string never arises there; the order puts numbers
  first only to be total.
\<close>

instantiation val :: linorder
begin

fun less_eq_val :: "val \<Rightarrow> val \<Rightarrow> bool" where
  "less_eq_val (VInt a) (VInt b) = (a \<le> b)"
| "less_eq_val (VInt a) (VStr b) = True"
| "less_eq_val (VStr a) (VInt b) = False"
| "less_eq_val (VStr a) (VStr b) = (a \<le> b)"
| "less_eq_val x VNull = True"
| "less_eq_val VNull (VInt b) = False"
| "less_eq_val VNull (VStr b) = False"

definition less_val :: "val \<Rightarrow> val \<Rightarrow> bool" where
  "less_val x y = (x \<le> y \<and> \<not> y \<le> x)"

instance
proof
  fix x y z :: val
  show "(x < y) = (x \<le> y \<and> \<not> y \<le> x)" by (simp add: less_val_def)
  show "x \<le> x" by (cases x) simp_all
  show "x \<le> y \<Longrightarrow> y \<le> z \<Longrightarrow> x \<le> z"
    by (cases x; cases y; cases z) auto
  show "x \<le> y \<Longrightarrow> y \<le> x \<Longrightarrow> x = y"
    by (cases x; cases y) auto
  show "x \<le> y \<or> y \<le> x"
    by (cases x; cases y) auto
qed

end

text \<open>
  A table (\<open>KiaraTable\<close>, an Arrow table): its column names in order and its rows, each
  row holding one cell per column. \<open>valid_table\<close> is the shape every Arrow table has.
\<close>

record table =
  column_names :: "string list"
  rows :: "val list list"

definition num_rows :: "table \<Rightarrow> nat" where
  "num_rows t = length (rows t)"

definition valid_table :: "table \<Rightarrow> bool" where
  "valid_table t =
     (distinct (column_names t) \<and>
      list_all (\<lambda>r. length r = length (column_names t)) (rows t))"

text \<open>The exceptions the code can raise, each with its message where the code builds one.\<close>

datatype error =
    Exception string
  | KiaraException string
  | TypeError string
  | ValueError string
  | KeyError string
  | NetworkXError string

section \<open>Constants of \<open>defaults.py\<close>\<close>

text \<open>
  Modelled from the spec: \<open>kiara_plugin/tropy/defaults.py\<close> is not among the sources. The
  two logical table names are the fixed relation names "edges" and "nodes" of the spec;
  the four graph types and their string values are those of the \<open>Literal\<close> type of the
  field \<open>graph_type\<close> in \<open>models.py\<close>.
\<close>

definition EDGES_TABLE_NAME :: string where
  "EDGES_TABLE_NAME = ''edges''"

definition NODES_TABLE_NAME :: string where
  "NODES_TABLE_NAME = ''nodes''"

datatype GraphType = DIRECTED | UNDIRECTED | DIRECTED_MULTI | UNDIRECTED_MULTI

fun graph_type_value :: "GraphType \<Rightarrow> string" where
  "graph_type_value DIRECTED = ''directed''"
| "graph_type_value UNDIRECTED = ''undirected''"
| "graph_type_value DIRECTED_MULTI = ''directed_multi''"
| "graph_type_value UNDIRECTED_MULTI = ''undirected_multi''"

section \<open>The tabular graph\<close>

record NetworkGraph =
  graph_type :: string
  source_column_name :: string
  target_column_name :: string
  node_id_column_name :: string
  tables :: "(string \<times> table) list"

text \<open>The properties \<open>edges\<close>, \<open>nodes\<close>, \<open>num_nodes\<close> and \<open>num_edges\<close>.\<close>

definition get_table :: "NetworkGraph \<Rightarrow> string \<Rightarrow> error + table" where
  "get_table g name =
     (case map_of (tables g) name of
        None \<Rightarrow> Inl (KeyError name)
      | Some t \<Rightarrow> Inr t)"

definition edges :: "NetworkGraph \<Rightarrow> error + table" where
  "edges g = get_table g EDGES_TABLE_NAME"

definition nodes :: "NetworkGraph \<Rightarrow> error + table" where
  "nodes g = get_table g NODES_TABLE_NAME"

definition num_nodes :: "NetworkGraph \<Rightarrow> error + nat" where
  "num_nodes g = (case nodes g of Inl e \<Rightarrow> Inl e | Inr t \<Rightarrow> Inr (num_rows t))"

definition num_edges :: "NetworkGraph \<Rightarrow> error + nat" where
  "num_edges g = (case edges g of Inl e \<Rightarrow> Inl e | Inr t \<Rightarrow> Inr (num_rows t))"

subsection \<open>Messages\<close>

fun join :: "string \<Rightarrow> string list \<Rightarrow> string" where
  "join sep [] = []"
| "join sep [x] = x"
| "join sep (x # y # ys) = x @ sep @ join sep (y # ys)"

definition quoted :: "string \<Rightarrow> string" where
  "quoted s = [CHR 0x27] @ s @ [CHR 0x27]"

text \<open>
  The message of the three schema checks:
  \<^verbatim>\<open>Invalid 'network_data' value: '<table>' table does not contain a '<column>' column.
  Available columns: <names joined by ", ">.\<close>
\<close>

definition missing_column_message :: "string \<Rightarrow> string \<Rightarrow> string list \<Rightarrow> string" where
  "missing_column_message table_name column available =
     ''Invalid '' @ quoted ''network_data'' @ '' value: '' @ quoted table_name @
     '' table does not contain a '' @ quoted column @
     '' column. Available columns: '' @ join '', '' available @ ''.''"

subsection \<open>Node inference\<close>

text \<open>
  The values of one column, read row by row. In a valid table every row has a cell for
  every column, so the null of the second branch is never produced there.
\<close>

definition select_column :: "table \<Rightarrow> string \<Rightarrow> val list" where
  "select_column t c =
     map (\<lambda>r. case map_of (zip (column_names t) r) c of Some v \<Rightarrow> v | None \<Rightarrow> VNull)
       (rows t)"

text \<open>
  The query that \<open>create_from_tables\<close> sends to the SQL engine, with the local variable
  \<open>edges\<close> bound to the edges table:
  \<^verbatim>\<open>SELECT DISTINCT combined.<id> FROM (
       SELECT <source> AS <id> FROM edges
       UNION
       SELECT <target> AS <id> FROM edges
  ) AS combined ORDER BY combined.<id>\<close>
  The engine is an external component; the definition is the meaning of this query for
  column names that are plain SQL identifiers: one column, the distinct values of both
  endpoint columns, ascending.
\<close>

definition infer_nodes_query :: "table \<Rightarrow> string \<Rightarrow> string \<Rightarrow> string \<Rightarrow> table" where
  "infer_nodes_query edges_tbl source target node_id =
     \<lparr>column_names = [node_id],
      rows = map (\<lambda>v. [v])
        (sort (remdups (select_column edges_tbl source @ select_column edges_tbl target)))\<rparr>"

subsection \<open>\<open>create_from_tables\<close>\<close>

text \<open>
  \<open>nodes_table\<close> is \<open>None\<close> when the caller passes no nodes table. The two calls of
  \<open>KiaraTable.create_table\<close> wrap their argument and leave a table as it is.
\<close>

definition create_from_tables ::
  "GraphType \<Rightarrow> table \<Rightarrow> table option \<Rightarrow> string \<Rightarrow> string \<Rightarrow> string \<Rightarrow> error + NetworkGraph"
where
  "create_from_tables gt edges_table nodes_table source target node_id =
     (let edges_columns = column_names edges_table in
      if source \<notin> set edges_columns then
        Inl (Exception (missing_column_message ''edges'' source edges_columns))
      else if target \<notin> set edges_columns then
        Inl (Exception (missing_column_message ''edges'' target edges_columns))
      else
        (case
           (case nodes_table of
              None \<Rightarrow> Inr (infer_nodes_query edges_table source target node_id)
            | Some nt \<Rightarrow>
                (let nodes_columns = column_names nt in
                 if node_id \<notin> set nodes_columns then
                   Inl (Exception (missing_column_message ''nodes'' node_id nodes_columns))
                 else Inr nt))
         of
           Inl e \<Rightarrow> Inl e
         | Inr nodes_table' \<Rightarrow>
             Inr \<lparr>graph_type = graph_type_value gt,
                  source_column_name = source,
                  target_column_name = target,
                  node_id_column_name = node_id,
                  tables = [(EDGES_TABLE_NAME, edges_table), (NODES_TABLE_NAME, nodes_table')]\<rparr>))"

section \<open>Python dictionaries\<close>

text \<open>
  A Python \<open>dict\<close> keeps its keys in insertion order: an association list with distinct
  keys, where assigning to a present key keeps its place and a new key goes to the end
  (\<open>AList.update\<close>).
\<close>

definition dict_get :: "('k \<times> 'v) list \<Rightarrow> 'k \<Rightarrow> 'v \<Rightarrow> 'v" where
  "dict_get d k dflt = (case map_of d k of None \<Rightarrow> dflt | Some v \<Rightarrow> v)"

definition dict_update :: "('k \<times> 'v) list \<Rightarrow> ('k \<times> 'v) list \<Rightarrow> ('k \<times> 'v) list" where
  "dict_update d other = fold (\<lambda>kv. AList.update (fst kv) (snd kv)) other d"

definition dict_keys :: "('k \<times> 'v) list \<Rightarrow> 'k list" where
  "dict_keys d = map fst d"

text \<open>The elements of a list in the order of their first occurrence.\<close>

definition first_seen :: "'a list \<Rightarrow> 'a list" where
  "first_seen xs = rev (remdups (rev xs))"

section \<open>The graph objects of networkx\<close>

text \<open>
  The four graph classes. \<open>DiGraph\<close> and \<open>MultiGraph\<close> are subclasses of \<open>Graph\<close>, and
  \<open>MultiDiGraph\<close> is a subclass of both.
\<close>

datatype graph_class = Graph | DiGraph | MultiGraph | MultiDiGraph

fun isinstance :: "graph_class \<Rightarrow> graph_class \<Rightarrow> bool" where
  "isinstance c Graph = True"
| "isinstance c DiGraph = (c = DiGraph \<or> c = MultiDiGraph)"
| "isinstance c MultiGraph = (c = MultiGraph \<or> c = MultiDiGraph)"
| "isinstance c MultiDiGraph = (c = MultiDiGraph)"

definition is_directed :: "graph_class \<Rightarrow> bool" where
  "is_directed c = (c = DiGraph \<or> c = MultiDiGraph)"

definition is_multigraph :: "graph_class \<Rightarrow> bool" where
  "is_multigraph c = (c = MultiGraph \<or> c = MultiDiGraph)"

text \<open>
  A graph object holds the dictionary \<open>_node\<close> (node to attribute dictionary) and the
  adjacency dictionary \<open>_adj\<close> (\<open>_succ\<close> for the directed classes): node to neighbour to
  key to the edge's attribute dictionary. The simple classes have no key level; their one
  attribute dictionary per neighbour is stored here under the key \<open>VInt 0\<close>, which makes
  \<open>Graph.add_edge\<close> the keyed insertion of the multigraph at a fixed key. An undirected
  graph stores every edge under both of its endpoints; networkx shares one dictionary
  object between the two entries, the model writes both.
\<close>

type_synonym attrs = "(string \<times> val) list"
type_synonym keydict = "(val \<times> attrs) list"
type_synonym adjacency = "(val \<times> (val \<times> keydict) list) list"

record nx_graph =
  nx_class :: graph_class
  nx_node :: "(val \<times> attrs) list"
  nx_adj :: adjacency

definition empty_graph :: "graph_class \<Rightarrow> nx_graph" where
  "empty_graph c = \<lparr>nx_class = c, nx_node = [], nx_adj = []\<rparr>"

text \<open>\<open>add_node(n, **attr)\<close>: a new node gets a fresh attribute dictionary, a known one is updated.\<close>

definition add_node :: "nx_graph \<Rightarrow> val \<Rightarrow> attrs \<Rightarrow> error + nx_graph" where
  "add_node g n attr =
     (if n \<notin> set (dict_keys (nx_node g)) then
        (if n = VNull then Inl (ValueError ''None cannot be a node'')
         else Inr (g\<lparr>nx_adj := AList.update n [] (nx_adj g),
                     nx_node := AList.update n (dict_update [] attr) (nx_node g)\<rparr>))
      else
        Inr (g\<lparr>nx_node :=
               AList.update n (dict_update (dict_get (nx_node g) n []) attr) (nx_node g)\<rparr>))"

text \<open>
  The head of every \<open>add_edge\<close>: an endpoint that is not yet a node becomes one, with no
  attributes. The simple classes look the endpoint up in \<open>_node\<close>, the multigraph classes
  in \<open>_adj\<close>.
\<close>

definition add_endpoint :: "nx_graph \<Rightarrow> val \<Rightarrow> error + nx_graph" where
  "add_endpoint g n =
     (if n \<in> set (if is_multigraph (nx_class g) then dict_keys (nx_adj g)
                   else dict_keys (nx_node g))
      then Inr g
      else if n = VNull then Inl (ValueError ''None cannot be a node'')
      else Inr (g\<lparr>nx_adj := AList.update n [] (nx_adj g),
                  nx_node := AList.update n [] (nx_node g)\<rparr>))"

text \<open>
  \<open>new_edge_key\<close>: the number of edges between the two nodes, counted up while that
  number is already a key.
\<close>

function first_free_key :: "val list \<Rightarrow> int \<Rightarrow> int" where
  "first_free_key ks k = (if VInt k \<in> set ks then first_free_key ks (k + 1) else k)"
  by pat_completeness auto
termination
proof (relation "measure (\<lambda>(ks, k). length (filter (\<lambda>x. \<exists>j\<ge>k. x = VInt j) ks))")
  show "wf (measure (\<lambda>(ks, k). length (filter (\<lambda>x. \<exists>j\<ge>k. x = VInt j) ks)))"
    by simp
next
  fix ks :: "val list" and k :: int
  assume m: "VInt k \<in> set ks"
  let ?P = "\<lambda>x. \<exists>j\<ge>k. x = VInt j" and ?Q = "\<lambda>x. \<exists>j\<ge>k + 1. x = VInt j"
  have eq: "filter ?Q ks = filter ?Q (filter ?P ks)"
    by (auto intro!: filter_cong)
  have mem: "VInt k \<in> set (filter ?P ks)" using m by simp
  have nq: "\<not> ?Q (VInt k)" by simp
  have "length (filter ?Q (filter ?P ks)) < length (filter ?P ks)"
    using length_filter_less[where x = "VInt k" and xs = "filter ?P ks" and P = ?Q] mem nq
    by blast
  then have "length (filter ?Q ks) < length (filter ?P ks)"
    using eq by simp
  then show "((ks, k + 1), (ks, k)) \<in> measure (\<lambda>(ks, k). length (filter (\<lambda>x. \<exists>j\<ge>k. x = VInt j) ks))"
    by simp
qed

declare first_free_key.simps [simp del]

definition new_edge_key :: "nx_graph \<Rightarrow> val \<Rightarrow> val \<Rightarrow> val" where
  "new_edge_key g u v =
     (case map_of (dict_get (nx_adj g) u []) v of
        None \<Rightarrow> VInt 0
      | Some keydict \<Rightarrow> VInt (first_free_key (dict_keys keydict) (int (length keydict))))"

text \<open>
  \<open>add_edge(u, v, key, **attr)\<close> of the four classes. \<open>key\<close> is the keyword argument of
  the multigraph classes (\<open>None\<close> when it is not given); the simple classes have none.
\<close>

definition add_edge :: "nx_graph \<Rightarrow> val \<Rightarrow> val \<Rightarrow> val option \<Rightarrow> attrs \<Rightarrow> error + nx_graph" where
  "add_edge g u v key attr =
     (case add_endpoint g u of
        Inl e \<Rightarrow> Inl e
      | Inr g1 \<Rightarrow>
     (case add_endpoint g1 v of
        Inl e \<Rightarrow> Inl e
      | Inr g2 \<Rightarrow>
          (let k = (if is_multigraph (nx_class g2)
                    then (case key of None \<Rightarrow> new_edge_key g2 u v | Some k' \<Rightarrow> k')
                    else VInt 0);
               nbrs = dict_get (nx_adj g2) u [];
               keydict = dict_get nbrs v [];
               datadict = dict_update (dict_get keydict k []) attr;
               keydict' = AList.update k datadict keydict;
               adj1 = AList.update u (AList.update v keydict' nbrs) (nx_adj g2);
               adj2 = (if is_directed (nx_class g2) then adj1
                       else AList.update v (AList.update u keydict' (dict_get adj1 v [])) adj1)
           in Inr (g2\<lparr>nx_adj := adj2\<rparr>))))"

text \<open>
  The edge views. The undirected classes report an edge at the first of its endpoints in
  node order: a neighbour that was already visited as a node is skipped.
\<close>

fun adj_edges :: "bool \<Rightarrow> val list \<Rightarrow> adjacency \<Rightarrow> (val \<times> val \<times> val \<times> attrs) list" where
  "adj_edges directed seen [] = []"
| "adj_edges directed seen ((n, nbrs) # rest) =
     concat (map (\<lambda>(nbr, keydict).
         if \<not> directed \<and> nbr \<in> set seen then []
         else map (\<lambda>(k, dd). (n, nbr, k, dd)) keydict) nbrs)
     @ adj_edges directed (n # seen) rest"

definition edges_data :: "nx_graph \<Rightarrow> (val \<times> val \<times> attrs) list" where
  "edges_data g =
     map (\<lambda>(u, v, k, dd). (u, v, dd)) (adj_edges (is_directed (nx_class g)) [] (nx_adj g))"

definition number_of_nodes :: "nx_graph \<Rightarrow> nat" where
  "number_of_nodes g = length (nx_node g)"

text \<open>\<open>len(graph.edges())\<close>: the number of edges the edge view holds.\<close>

definition number_of_edges :: "nx_graph \<Rightarrow> nat" where
  "number_of_edges g = length (edges_data g)"

section \<open>\<open>as_networkx_graph\<close>\<close>

definition class_of_graph_type :: "string \<Rightarrow> error + graph_class" where
  "class_of_graph_type gt =
     (if gt = graph_type_value DIRECTED then Inr DiGraph
      else if gt = graph_type_value UNDIRECTED then Inr Graph
      else if gt = graph_type_value DIRECTED_MULTI then Inr MultiDiGraph
      else if gt = graph_type_value UNDIRECTED_MULTI then Inr MultiGraph
      else Inl (KiaraException ''Invalid graph type: {self.graph_type}''))"

text \<open>A row as pandas hands it out: the dictionary from column name to cell.\<close>

definition row_to_dict :: "string list \<Rightarrow> val list \<Rightarrow> attrs" where
  "row_to_dict cols r = zip cols r"

definition row_get :: "attrs \<Rightarrow> string \<Rightarrow> error + val" where
  "row_get row c = (case map_of row c of None \<Rightarrow> Inl (KeyError c) | Some v \<Rightarrow> Inr v)"

text \<open>
  The calls \<open>graph.add_node(id, **row)\<close> and \<open>graph.add_edge(s, t, **row)\<close>. Python refuses
  a keyword that names a parameter already bound positionally (the \<open>TypeError\<close> carries the
  name of that parameter); the keyword \<open>key\<close> of a multigraph is the edge key and not an
  attribute, and a null there asks for a new key.
\<close>

definition call_add_node :: "nx_graph \<Rightarrow> val \<Rightarrow> attrs \<Rightarrow> error + nx_graph" where
  "call_add_node g n kwargs =
     (if ''self'' \<in> set (dict_keys kwargs) then Inl (TypeError ''self'')
      else if ''node_for_adding'' \<in> set (dict_keys kwargs) then Inl (TypeError ''node_for_adding'')
      else add_node g n kwargs)"

definition call_add_edge :: "nx_graph \<Rightarrow> val \<Rightarrow> val \<Rightarrow> attrs \<Rightarrow> error + nx_graph" where
  "call_add_edge g u v kwargs =
     (if ''self'' \<in> set (dict_keys kwargs) then Inl (TypeError ''self'')
      else if is_multigraph (nx_class g) then
        (if ''u_for_edge'' \<in> set (dict_keys kwargs) then Inl (TypeError ''u_for_edge'')
         else if ''v_for_edge'' \<in> set (dict_keys kwargs) then Inl (TypeError ''v_for_edge'')
         else add_edge g u v
           (case map_of kwargs ''key'' of None \<Rightarrow> None | Some VNull \<Rightarrow> None | Some k \<Rightarrow> Some k)
           (filter (\<lambda>kv. fst kv \<noteq> ''key'') kwargs))
      else
        (if ''u_of_edge'' \<in> set (dict_keys kwargs) then Inl (TypeError ''u_of_edge'')
         else if ''v_of_edge'' \<in> set (dict_keys kwargs) then Inl (TypeError ''v_of_edge'')
         else add_edge g u v None kwargs))"

text \<open>A loop over rows that stops at the first exception.\<close>

fun for_rows :: "('r \<Rightarrow> 's \<Rightarrow> error + 's) \<Rightarrow> 'r list \<Rightarrow> 's \<Rightarrow> error + 's" where
  "for_rows f [] s = Inr s"
| "for_rows f (r # rs) s = (case f r s of Inl e \<Rightarrow> Inl e | Inr s' \<Rightarrow> for_rows f rs s')"

definition add_node_row :: "string \<Rightarrow> string list \<Rightarrow> val list \<Rightarrow> nx_graph \<Rightarrow> error + nx_graph" where
  "add_node_row node_id cols r g =
     (let row = row_to_dict cols r in
      case row_get row node_id of
        Inl e \<Rightarrow> Inl e
      | Inr n \<Rightarrow> call_add_node g n row)"

definition add_edge_row ::
  "string \<Rightarrow> string \<Rightarrow> string list \<Rightarrow> val list \<Rightarrow> nx_graph \<Rightarrow> error + nx_graph" where
  "add_edge_row source target cols r g =
     (let row = row_to_dict cols r in
      case row_get row source of
        Inl e \<Rightarrow> Inl e
      | Inr u \<Rightarrow>
     (case row_get row target of
        Inl e \<Rightarrow> Inl e
      | Inr v \<Rightarrow> call_add_edge g u v row))"

definition as_networkx_graph :: "NetworkGraph \<Rightarrow> error + nx_graph" where
  "as_networkx_graph T =
     (case class_of_graph_type (graph_type T) of
        Inl e \<Rightarrow> Inl e
      | Inr cls \<Rightarrow>
     (case nodes T of
        Inl e \<Rightarrow> Inl e
      | Inr nodes_df \<Rightarrow>
     (case for_rows (add_node_row (node_id_column_name T) (column_names nodes_df))
             (rows nodes_df) (empty_graph cls) of
        Inl e \<Rightarrow> Inl e
      | Inr g1 \<Rightarrow>
     (case edges T of
        Inl e \<Rightarrow> Inl e
      | Inr edges_df \<Rightarrow>
          for_rows (add_edge_row (source_column_name T) (target_column_name T)
              (column_names edges_df))
            (rows edges_df) g1))))"

section \<open>The statistics of a graph value\<close>

record NetworkGraphProperties =
  props_number_of_nodes :: nat
  props_number_of_edges :: nat

definition create_value_metadata :: "NetworkGraph \<Rightarrow> error + NetworkGraphProperties" where
  "create_value_metadata network_graph =
     (case as_networkx_graph network_graph of
        Inl e \<Rightarrow> Inl e
      | Inr graph \<Rightarrow>
          Inr \<lparr>props_number_of_nodes = number_of_nodes graph,
               props_number_of_edges = number_of_edges graph\<rparr>)"

section \<open>The data frames of pandas\<close>

text \<open>
  A data frame: the row labels (its index), the column labels and the cells row by row.
  Column labels are strings here, as the attribute names of a graph built from a table
  are. \<open>range_index\<close> is the default index \<open>0, 1, ...\<close>.
\<close>

record dataframe =
  df_index :: "val list"
  df_columns :: "string list"
  df_data :: "val list list"

definition range_index :: "nat \<Rightarrow> val list" where
  "range_index n = map (\<lambda>i. VInt (int i)) [0..<n]"

text \<open>\<open>DataFrame(d)\<close> for a dictionary \<open>d\<close> of equally long columns.\<close>

definition dataframe_of_columns :: "nat \<Rightarrow> (string \<times> val list) list \<Rightarrow> dataframe" where
  "dataframe_of_columns n d =
     \<lparr>df_index = range_index n,
      df_columns = dict_keys d,
      df_data = map (\<lambda>i. map (\<lambda>kc. snd kc ! i) d) [0..<n]\<rparr>"

text \<open>\<open>df.drop(c, axis=1)\<close>, which raises \<open>KeyError\<close> for an unknown label.\<close>

definition df_drop :: "dataframe \<Rightarrow> string \<Rightarrow> error + dataframe" where
  "df_drop df c =
     (if c \<notin> set (df_columns df) then Inl (KeyError c)
      else Inr (df\<lparr>df_columns := filter (\<lambda>k. k \<noteq> c) (df_columns df),
                  df_data := map (\<lambda>r. map snd (filter (\<lambda>kv. fst kv \<noteq> c) (zip (df_columns df) r)))
                               (df_data df)\<rparr>))"

text \<open>\<open>df.rename(columns={a: b})\<close>.\<close>

definition df_rename :: "dataframe \<Rightarrow> string \<Rightarrow> string \<Rightarrow> dataframe" where
  "df_rename df a b = df\<lparr>df_columns := map (\<lambda>k. if k = a then b else k) (df_columns df)\<rparr>"

text \<open>
  \<open>DataFrame.from_dict(data, orient="index")\<close> for a dictionary of dictionaries: pandas
  turns it inside out (column to row label to value, both in order of first appearance),
  takes as index the row labels in the order in which the columns mention them, and fills
  the cells a row does not have with NaN.
\<close>

definition from_dict_index :: "(val \<times> attrs) list \<Rightarrow> dataframe" where
  "from_dict_index data =
     (let columns = first_seen (concat (map (\<lambda>kv. dict_keys (snd kv)) data));
          new_data = map (\<lambda>c. (c, filter (\<lambda>kv. c \<in> set (dict_keys (snd kv))) data)) columns;
          index = first_seen (concat (map (\<lambda>ce. dict_keys (snd ce)) new_data))
      in \<lparr>df_index = index,
          df_columns = columns,
          df_data = map (\<lambda>k. map (\<lambda>c. dict_get (dict_get data k []) c VNull) columns) index\<rparr>)"

text \<open>
  \<open>df.reset_index()\<close> for an unnamed index: the index becomes the first column, named
  \<open>index\<close>, or \<open>level_0\<close> when there is a column \<open>index\<close> already; inserting a label that
  exists raises \<open>ValueError\<close>.
\<close>

definition reset_index :: "dataframe \<Rightarrow> error + dataframe" where
  "reset_index df =
     (let name = (if ''index'' \<notin> set (df_columns df) then ''index'' else ''level_0'') in
      if name \<in> set (df_columns df) then
        Inl (ValueError (''cannot insert '' @ name @ '', already exists''))
      else
        Inr \<lparr>df_index = range_index (length (df_index df)),
             df_columns = name # df_columns df,
             df_data = map (\<lambda>ir. fst ir # snd ir) (zip (df_index df) (df_data df))\<rparr>)"

text \<open>\<open>KiaraTable.create_table\<close> of a data frame with a default index.\<close>

definition table_of_dataframe :: "dataframe \<Rightarrow> table" where
  "table_of_dataframe df = \<lparr>column_names = df_columns df, rows = df_data df\<rparr>"

text \<open>
  \<open>networkx.to_pandas_edgelist(G, source, target)\<close>. The attribute names are collected in
  a Python set, whose iteration order the language leaves open: \<open>attr_order\<close> is that
  order, as a function of the names in order of first appearance.
\<close>

definition to_pandas_edgelist ::
  "nx_graph \<Rightarrow> string \<Rightarrow> string \<Rightarrow> (string list \<Rightarrow> string list) \<Rightarrow> error + dataframe" where
  "to_pandas_edgelist g source target attr_order =
     (let edgelist = edges_data g;
          source_nodes = map (\<lambda>e. fst e) edgelist;
          target_nodes = map (\<lambda>e. fst (snd e)) edgelist;
          all_attrs = attr_order (first_seen (concat (map (\<lambda>e. dict_keys (snd (snd e))) edgelist)))
      in if source \<in> set all_attrs then
           Inl (NetworkXError (''Source name '' @ quoted source @ '' is an edge attr name''))
         else if target \<in> set all_attrs then
           Inl (NetworkXError (''Target name '' @ quoted target @ '' is an edge attr name''))
         else
           (let edge_attr = map (\<lambda>k. (k, map (\<lambda>e. dict_get (snd (snd e)) k VNull) edgelist)) all_attrs;
                edgelistdict =
                  dict_update (AList.update target target_nodes [(source, source_nodes)]) edge_attr
            in Inr (dataframe_of_columns (length edgelist) edgelistdict)))"

definition set_order :: "(string list \<Rightarrow> string list) \<Rightarrow> bool" where
  "set_order attr_order = (\<forall>ks. distinct (attr_order ks) \<and> set (attr_order ks) = set ks)"

section \<open>\<open>create_from_networkx_graph\<close>\<close>

text \<open>
  The argument is any Python object: a graph of one of the four classes (or of a subclass,
  which behaves as its base class here), or something else, of which only the text of its
  type matters.
\<close>

datatype py_object = NxGraph nx_graph | OtherObject string

fun obj_isinstance :: "py_object \<Rightarrow> graph_class \<Rightarrow> bool" where
  "obj_isinstance (NxGraph g) c = isinstance (nx_class g) c"
| "obj_isinstance (OtherObject ty) c = False"

fun type_repr :: "py_object \<Rightarrow> string" where
  "type_repr (NxGraph g) =
     (case nx_class g of
        Graph \<Rightarrow> ''<class '' @ quoted ''networkx.classes.graph.Graph'' @ ''>''
      | DiGraph \<Rightarrow> ''<class '' @ quoted ''networkx.classes.digraph.DiGraph'' @ ''>''
      | MultiGraph \<Rightarrow> ''<class '' @ quoted ''networkx.classes.multigraph.MultiGraph'' @ ''>''
      | MultiDiGraph \<Rightarrow> ''<class '' @ quoted ''networkx.classes.multidigraph.MultiDiGraph'' @ ''>'')"
| "type_repr (OtherObject ty) = ty"

definition graph_type_of_object :: "py_object \<Rightarrow> error + GraphType" where
  "graph_type_of_object graph =
     (if obj_isinstance graph MultiDiGraph then Inr DIRECTED_MULTI
      else if obj_isinstance graph MultiGraph then Inr UNDIRECTED_MULTI
      else if obj_isinstance graph DiGraph then Inr DIRECTED
      else if obj_isinstance graph Graph then Inr UNDIRECTED
      else Inl (KiaraException (''Invalid graph type: '' @ type_repr graph)))"

text \<open>
  The edges table (the lines from \<open>temp_source = ...\<close> to \<open>edges_table = ...\<close>).
  \<open>temp_source\<close> and \<open>temp_target\<close> are the two random UUID strings. The calls of
  \<open>log_message\<close> have no effect on the result and are left out.
\<close>

definition drop_and_rename :: "dataframe \<Rightarrow> string \<Rightarrow> string \<Rightarrow> error + dataframe" where
  "drop_and_rename edges_df column_name temp =
     (if column_name \<in> set (df_columns edges_df) then
        (case df_drop edges_df column_name of
           Inl e \<Rightarrow> Inl e
         | Inr d \<Rightarrow> Inr (df_rename d temp column_name))
      else Inr edges_df)"

definition extract_edges_table ::
  "nx_graph \<Rightarrow> string \<Rightarrow> string \<Rightarrow> string \<Rightarrow> string \<Rightarrow> (string list \<Rightarrow> string list)
   \<Rightarrow> error + table" where
  "extract_edges_table graph source target temp_source temp_target attr_order =
     (case to_pandas_edgelist graph temp_source temp_target attr_order of
        Inl e \<Rightarrow> Inl e
      | Inr edges_df \<Rightarrow>
     (case drop_and_rename edges_df source temp_source of
        Inl e \<Rightarrow> Inl e
      | Inr edges_df1 \<Rightarrow>
     (case drop_and_rename edges_df1 target temp_target of
        Inl e \<Rightarrow> Inl e
      | Inr edges_df2 \<Rightarrow> Inr (table_of_dataframe edges_df2))))"

text \<open>The nodes table (the lines from \<open>node_dict = ...\<close> to \<open>nodes_table = ...\<close>).\<close>

definition placeholder :: string where
  "placeholder = ''_x_placeholder_x_''"

definition or_placeholder :: "attrs \<Rightarrow> attrs" where
  "or_placeholder v = (if v = [] then [(placeholder, VStr ''__dummy__'')] else v)"

definition node_dict_of :: "nx_graph \<Rightarrow> (val \<times> attrs) list" where
  "node_dict_of graph = map (\<lambda>kv. (fst kv, or_placeholder (snd kv))) (nx_node graph)"

definition extract_nodes_table :: "nx_graph \<Rightarrow> string \<Rightarrow> error + table" where
  "extract_nodes_table graph node_id =
     (case reset_index (from_dict_index (node_dict_of graph)) of
        Inl e \<Rightarrow> Inl e
      | Inr nodes_data \<Rightarrow>
     (case (if placeholder \<in> set (df_columns nodes_data) then df_drop nodes_data placeholder
            else Inr nodes_data) of
        Inl e \<Rightarrow> Inl e
      | Inr nodes_data1 \<Rightarrow>
     (case (if node_id \<in> set (df_columns nodes_data1) then df_drop nodes_data1 ''index''
            else Inr (df_rename nodes_data1 ''index'' node_id)) of
        Inl e \<Rightarrow> Inl e
      | Inr nodes_data2 \<Rightarrow> Inr (table_of_dataframe nodes_data2))))"

text \<open>
  The whole conversion. The second case distinction is on the object itself: an object
  that is no graph has been refused by the classification before.
\<close>

definition create_from_networkx_graph ::
  "py_object \<Rightarrow> string \<Rightarrow> string \<Rightarrow> string \<Rightarrow> string \<Rightarrow> string \<Rightarrow> (string list \<Rightarrow> string list)
   \<Rightarrow> error + NetworkGraph" where
  "create_from_networkx_graph obj source target node_id temp_source temp_target attr_order =
     (case graph_type_of_object obj of
        Inl e \<Rightarrow> Inl e
      | Inr gt \<Rightarrow>
     (case obj of
        OtherObject ty \<Rightarrow> Inl (KiaraException (''Invalid graph type: '' @ ty))
      | NxGraph graph \<Rightarrow>
     (case extract_edges_table graph source target temp_source temp_target attr_order of
        Inl e \<Rightarrow> Inl e
      | Inr edges_table \<Rightarrow>
     (case extract_nodes_table graph node_id of
        Inl e \<Rightarrow> Inl e
      | Inr nodes_table \<Rightarrow>
          create_from_tables gt edges_table (Some nodes_table) source target node_id))))"

section \<open>The query surface\<close>

text \<open>
  The SQL engine is an external component: a function from the query text and the tables
  visible under their names to a result table or an error. \<open>query\<close> makes the two tables
  visible as the local variables \<open>edges\<close> and \<open>nodes\<close>.
\<close>

type_synonym sql_engine = "string \<Rightarrow> (string \<times> table) list \<Rightarrow> error + table"

definition query :: "sql_engine \<Rightarrow> NetworkGraph \<Rightarrow> string \<Rightarrow> error + table" where
  "query execute g sql_query =
     (case edges g of
        Inl e \<Rightarrow> Inl e
      | Inr edges_tbl \<Rightarrow>
     (case nodes g of
        Inl e \<Rightarrow> Inl e
      | Inr nodes_tbl \<Rightarrow> execute sql_query [(''edges'', edges_tbl), (''nodes'', nodes_tbl)]))"

text \<open>
  What an engine answers to \<open>SELECT COUNT(*) FROM r\<close>: one row with one cell, the number
  of rows of the table bound to \<open>r\<close>. An engine \<open>counts_rows\<close> when it answers so for every
  bound name.
\<close>

definition count_result :: "nat \<Rightarrow> table" where
  "count_result n = \<lparr>column_names = [''count_star()''], rows = [[VInt (int n)]]\<rparr>"

definition counts_rows :: "sql_engine \<Rightarrow> bool" where
  "counts_rows execute =
     (\<forall>name env t. map_of env name = Some t \<longrightarrow>
        execute (''SELECT COUNT(*) FROM '' @ name) env = Inr (count_result (num_rows t)))"

text \<open>An engine that understands nothing but this one form of query.\<close>

definition count_engine :: sql_engine where
  "count_engine sql_text env =
     (if take 21 sql_text = ''SELECT COUNT(*) FROM '' then
        (case map_of env (drop 21 sql_text) of
           None \<Rightarrow> Inl (Exception ''Catalog Error: table does not exist'')
         | Some t \<Rightarrow> Inr (count_result (num_rows t)))
      else Inl (Exception ''Parser Error''))"

section \<open>Example inputs\<close>

text \<open>A directed multigraph with one edge from 1 to 2 that carries both endpoint attributes.\<close>

definition example_multidigraph :: nx_graph where
  "example_multidigraph =
     \<lparr>nx_class = MultiDiGraph,
      nx_node = [(VInt 1, []), (VInt 2, [])],
      nx_adj = [(VInt 1, [(VInt 2, [(VInt 0, [(''source'', VInt 1), (''target'', VInt 2)])])]),
                (VInt 2, [])]\<rparr>"

text \<open>The edges table of the example scenario of the spec, with a repeated pair.\<close>

definition example_edges :: table where
  "example_edges =
     \<lparr>column_names = [''source'', ''target'', ''weight''],
      rows = [[VStr ''A'', VStr ''B'', VInt 1],
              [VStr ''B'', VStr ''C'', VInt 2],
              [VStr ''A'', VStr ''C'', VInt 3],
              [VStr ''A'', VStr ''B'', VInt 4]]\<rparr>"

text \<open>
  An undirected graph whose only edge, between 1 and 2, carries an attribute named
  \<open>source\<close> and none named \<open>target\<close>.
\<close>

definition example_source_attr_graph :: nx_graph where
  "example_source_attr_graph =
     \<lparr>nx_class = Graph,
      nx_node = [(VInt 1, []), (VInt 2, [])],
      nx_adj = [(VInt 1, [(VInt 2, [(VInt 0, [(''source'', VInt 9)])])]),
                (VInt 2, [(VInt 1, [(VInt 0, [(''source'', VInt 9)])])])]\<rparr>"

text \<open>
  A directed graph whose two nodes carry an attribute with the reserved placeholder name,
  and one whose nodes carry an attribute \<open>id\<close>, the second node none at all.
\<close>

definition example_placeholder_graph :: nx_graph where
  "example_placeholder_graph =
     \<lparr>nx_class = DiGraph,
      nx_node = [(VInt 1, [(''_x_placeholder_x_'', VInt 7)]),
                 (VInt 2, [(''_x_placeholder_x_'', VInt 8)])],
      nx_adj = [(VInt 1, [(VInt 2, [(VInt 0, [(''source'', VInt 1), (''target'', VInt 2)])])]),
                (VInt 2, [])]\<rparr>"

definition example_id_attr_graph :: nx_graph where
  "example_id_attr_graph =
     \<lparr>nx_class = DiGraph,
      nx_node = [(VInt 1, [(''id'', VStr ''a''), (''size'', VInt 5)]),
                 (VInt 2, []),
                 (VInt 3, [(''id'', VStr ''c'')])],
      nx_adj = [(VInt 1, [(VInt 2, [(VInt 0, [(''source'', VInt 1), (''target'', VInt 2)])])]),
                (VInt 2, []), (VInt 3, [])]\<rparr>"

text \<open>
  A small undirected tabular graph with a nodes table of its own, and the graph object
  that \<open>as_networkx_graph\<close> builds from it.
\<close>

definition example_small_tabular :: NetworkGraph where
  "example_small_tabular =
     \<lparr>graph_type = ''undirected'', source_column_name = ''source'',
      target_column_name = ''target'', node_id_column_name = ''id'',
      tables = [(''edges'', \<lparr>column_names = [''source'', ''target'', ''weight''],
                             rows = [[VInt 1, VInt 2, VInt 5]]\<rparr>),
                (''nodes'', \<lparr>column_names = [''id'', ''label''],
                             rows = [[VInt 1, VStr ''x''], [VInt 2, VStr ''y'']]\<rparr>)]\<rparr>"

definition example_small_nx :: nx_graph where
  "example_small_nx =
     \<lparr>nx_class = Graph,
      nx_node = [(VInt 1, [(''id'', VInt 1), (''label'', VStr ''x'')]),
                 (VInt 2, [(''id'', VInt 2), (''label'', VStr ''y'')])],
      nx_adj = [(VInt 1, [(VInt 2, [(VInt 0, [(''source'', VInt 1), (''target'', VInt 2),
                                              (''weight'', VInt 5)])])]),
                (VInt 2, [(VInt 1, [(VInt 0, [(''source'', VInt 1), (''target'', VInt 2),
                                              (''weight'', VInt 5)])])])]\<rparr>"

text \<open>The tabular graph that \<open>create_from_tables\<close> builds from \<open>example_edges\<close> alone.\<close>

definition example_tabular :: "GraphType \<Rightarrow> NetworkGraph" where
  "example_tabular gt =
     \<lparr>graph_type = graph_type_value gt, source_column_name = ''source'',
      target_column_name = ''target'', node_id_column_name = ''id'',
      tables = [(EDGES_TABLE_NAME, example_edges),
                (NODES_TABLE_NAME, infer_nodes_query example_edges ''source'' ''target'' ''id'')]\<rparr>"

section \<open>Views used in the statements\<close>

text \<open>
  \<open>G.nodes[n].get(c, NaN)\<close>, the attribute names of all nodes in order of first appearance,
  and the key dictionary \<open>G[u][v]\<close> of the edges from \<open>u\<close> to \<open>v\<close>.
\<close>

definition node_attr :: "nx_graph \<Rightarrow> val \<Rightarrow> string \<Rightarrow> val" where
  "node_attr g n c = dict_get (dict_get (nx_node g) n []) c VNull"

definition node_attr_names :: "nx_graph \<Rightarrow> string list" where
  "node_attr_names g = first_seen (concat (map (\<lambda>kv. dict_keys (snd kv)) (nx_node g)))"

text \<open>
  The cell of a row under a column name, the last row of a list with a property, and the
  two endpoints of an edge row.
\<close>

definition row_value :: "string list \<Rightarrow> val list \<Rightarrow> string \<Rightarrow> val" where
  "row_value cols r c = dict_get (row_to_dict cols r) c VNull"

definition last_row_where :: "(val list \<Rightarrow> bool) \<Rightarrow> val list list \<Rightarrow> val list option" where
  "last_row_where P rs = List.find P (rev rs)"

definition row_ends :: "string list \<Rightarrow> string \<Rightarrow> string \<Rightarrow> val list \<Rightarrow> val \<times> val" where
  "row_ends cols source target r = (row_value cols r source, row_value cols r target)"

text \<open>
  Two endpoint pairs name the same edge when they are equal or, in an undirected graph,
  each other's reverse; \<open>edge_id\<close> picks one name per edge.
\<close>

definition same_edge :: "bool \<Rightarrow> val \<times> val \<Rightarrow> val \<times> val \<Rightarrow> bool" where
  "same_edge directed p q = (p = q \<or> (\<not> directed \<and> p = (snd q, fst q)))"

definition edge_id :: "bool \<Rightarrow> val \<times> val \<Rightarrow> val \<times> val" where
  "edge_id directed p =
     (if directed then p else (min (fst p) (snd p), max (fst p) (snd p)))"

definition adj_nbrs :: "nx_graph \<Rightarrow> val \<Rightarrow> (val \<times> keydict) list" where
  "adj_nbrs g u = dict_get (nx_adj g) u []"

definition adj_get :: "nx_graph \<Rightarrow> val \<Rightarrow> val \<Rightarrow> keydict option" where
  "adj_get g u v = map_of (adj_nbrs g u) v"

text \<open>The key under which \<open>add_edge\<close> stores the edge, and the key dictionary it leaves.\<close>

definition edge_key :: "nx_graph \<Rightarrow> val \<Rightarrow> val \<Rightarrow> val option \<Rightarrow> val" where
  "edge_key g u v key =
     (if is_multigraph (nx_class g)
      then (case key of None \<Rightarrow> new_edge_key g u v | Some k \<Rightarrow> k)
      else VInt 0)"

definition updated_keydict :: "nx_graph \<Rightarrow> val \<Rightarrow> val \<Rightarrow> val option \<Rightarrow> attrs \<Rightarrow> keydict" where
  "updated_keydict g u v key attr =
     (let keydict = dict_get (adj_nbrs g u) v [];
          k = edge_key g u v key
      in AList.update k (dict_update (dict_get keydict k []) attr) keydict)"

text \<open>
  The edges a graph reports, as a set: an undirected graph reports the edge between \<open>n\<close>
  and \<open>v\<close> at \<open>n\<close> unless \<open>v\<close> comes before \<open>n\<close> in node order.
\<close>

definition before :: "'a list \<Rightarrow> 'a \<Rightarrow> 'a \<Rightarrow> bool" where
  "before ks v n = (v \<in> set (takeWhile (\<lambda>x. x \<noteq> n) ks))"

definition reported :: "nx_graph \<Rightarrow> val \<Rightarrow> val \<Rightarrow> bool" where
  "reported g n v = (is_directed (nx_class g) \<or> \<not> before (map fst (nx_adj g)) v n)"

definition edge_set :: "nx_graph \<Rightarrow> (val \<times> val \<times> val \<times> attrs) set" where
  "edge_set g =
     {(n, v, k, dd). \<exists>kd. adj_get g n v = Some kd \<and> (k, dd) \<in> set kd \<and> reported g n v}"

text \<open>
  The shape of a graph object that networkx maintains: the node and adjacency dictionaries
  have the same keys in the same order, dictionaries have distinct keys, and an undirected
  graph holds every edge under both endpoints.
\<close>

definition wf_graph :: "nx_graph \<Rightarrow> bool" where
  "wf_graph g =
     (distinct (map fst (nx_node g)) \<and>
      map fst (nx_adj g) = map fst (nx_node g) \<and>
      (\<forall>u. distinct (map fst (adj_nbrs g u))) \<and>
      (\<forall>u v kd. adj_get g u v = Some kd \<longrightarrow> distinct (map fst kd)) \<and>
      (\<not> is_directed (nx_class g) \<longrightarrow> (\<forall>u v. adj_get g u v = adj_get g v u)))"

section \<open>Keyword names\<close>

text \<open>
  The names that a row passed as keyword arguments must not use as column names: the
  parameters of \<open>add_node\<close>, and those of the \<open>add_edge\<close> of the class, among them the
  \<open>key\<close> of the multigraph classes.
\<close>

definition node_keywords :: "string list" where
  "node_keywords = [''self'', ''node_for_adding'']"

definition edge_keywords :: "graph_class \<Rightarrow> string list" where
  "edge_keywords c =
     (if is_multigraph c then [''self'', ''u_for_edge'', ''v_for_edge'', ''key'']
      else [''self'', ''u_of_edge'', ''v_of_edge''])"

section \<open>Properties of \<open>create_from_tables\<close>\<close>

lemma edges_of_created:
  "create_from_tables gt e n s t i = Inr g \<Longrightarrow> edges g = Inr e"
  by (auto simp: create_from_tables_def edges_def get_table_def EDGES_TABLE_NAME_def
      Let_def split: if_splits option.splits sum.splits)

lemma nodes_of_created_inferred:
  "create_from_tables gt e None s t i = Inr g \<Longrightarrow> nodes g = Inr (infer_nodes_query e s t i)"
  by (auto simp: create_from_tables_def nodes_def get_table_def EDGES_TABLE_NAME_def
      NODES_TABLE_NAME_def Let_def split: if_splits)

lemma nodes_of_created_supplied:
  "create_from_tables gt e (Some nt) s t i = Inr g \<Longrightarrow> nodes g = Inr nt"
  by (auto simp: create_from_tables_def nodes_def get_table_def EDGES_TABLE_NAME_def
      NODES_TABLE_NAME_def Let_def split: if_splits)

lemma create_from_tables_inferred_ok:
  assumes "s \<in> set (column_names e)" and "t \<in> set (column_names e)"
  shows "create_from_tables gt e None s t i =
    Inr \<lparr>graph_type = graph_type_value gt, source_column_name = s, target_column_name = t,
         node_id_column_name = i,
         tables = [(EDGES_TABLE_NAME, e), (NODES_TABLE_NAME, infer_nodes_query e s t i)]\<rparr>"
  using assms by (simp add: create_from_tables_def)

lemma create_from_tables_supplied_ok:
  assumes "s \<in> set (column_names e)" and "t \<in> set (column_names e)"
    and "i \<in> set (column_names nt)"
  shows "create_from_tables gt e (Some nt) s t i =
    Inr \<lparr>graph_type = graph_type_value gt, source_column_name = s, target_column_name = t,
         node_id_column_name = i,
         tables = [(EDGES_TABLE_NAME, e), (NODES_TABLE_NAME, nt)]\<rparr>"
  using assms by (simp add: create_from_tables_def)


lemma infer_nodes_query_ids:
  "rows (infer_nodes_query e s t i) =
     map (\<lambda>v. [v]) (sort (remdups (select_column e s @ select_column e t)))"
  "column_names (infer_nodes_query e s t i) = [i]"
  by (simp_all add: infer_nodes_query_def)

lemma infer_nodes_query_cong:
  assumes "set (select_column e' s') \<union> set (select_column e' t') =
           set (select_column e s) \<union> set (select_column e t)"
  shows "infer_nodes_query e' s' t' i = infer_nodes_query e s t i"
proof -
  let ?a = "sort (remdups (select_column e' s' @ select_column e' t'))"
  let ?b = "sort (remdups (select_column e s @ select_column e t))"
  have "set ?a = set ?b" using assms by simp
  moreover have "sorted ?a" "sorted ?b" "distinct ?a" "distinct ?b" by simp_all
  ultimately have "?a = ?b" by (metis sorted_distinct_set_unique)
  then show ?thesis by (simp add: infer_nodes_query_def)
qed

section \<open>Lists, dictionaries and data frames\<close>

lemma first_seen_set [simp]: "set (first_seen xs) = set xs"
  by (simp add: first_seen_def)

lemma first_seen_distinct [simp]: "distinct (first_seen xs)"
  by (simp add: first_seen_def)

lemma first_seen_filter: "filter P (first_seen xs) = first_seen (filter P xs)"
  by (simp add: first_seen_def rev_filter remdups_filter)

lemma first_seen_distinct_id: "distinct xs \<Longrightarrow> first_seen xs = xs"
  by (simp add: first_seen_def distinct_remdups_id)

lemma first_seen_snoc:
  "first_seen (xs @ [x]) = (if x \<in> set xs then first_seen xs else first_seen xs @ [x])"
  by (simp add: first_seen_def)

lemma first_seen_Nil [simp]: "first_seen [] = []"
  by (simp add: first_seen_def)

lemma map_snd_filter_zip_map:
  "map snd (filter (\<lambda>kv. P (fst kv)) (zip xs (map f xs))) = map f (filter P xs)"
  by (induction xs) simp_all

lemma map_of_map_snd:
  "map_of (map (\<lambda>kv. (fst kv, f (snd kv))) xs) k = map_option f (map_of xs k)"
  by (induction xs) auto

lemma dict_get_node_dict_of:
  assumes "c \<noteq> placeholder"
  shows "dict_get (dict_get (node_dict_of g) n []) c VNull = node_attr g n c"
proof -
  have "map_of (node_dict_of g) n = map_option or_placeholder (map_of (nx_node g) n)"
    by (simp add: node_dict_of_def map_of_map_snd)
  then show ?thesis using assms
    by (cases "map_of (nx_node g) n")
      (simp_all add: node_attr_def dict_get_def or_placeholder_def)
qed


lemma placeholder_keys_filter:
  "filter (\<lambda>c. c \<noteq> placeholder)
     (concat (map (\<lambda>kv. dict_keys (snd kv)) (map (\<lambda>kv. (fst kv, or_placeholder (snd kv))) xs))) =
   filter (\<lambda>c. c \<noteq> placeholder) (concat (map (\<lambda>kv. dict_keys (snd kv)) xs))"
  by (induction xs) (auto simp: or_placeholder_def dict_keys_def)

lemma node_dict_keys_filter:
  "filter (\<lambda>c. c \<noteq> placeholder) (concat (map (\<lambda>kv. dict_keys (snd kv)) (node_dict_of g))) =
   filter (\<lambda>c. c \<noteq> placeholder) (concat (map (\<lambda>kv. dict_keys (snd kv)) (nx_node g)))"
  unfolding node_dict_of_def by (rule placeholder_keys_filter)

lemma node_dict_nonempty: "kv \<in> set (node_dict_of g) \<Longrightarrow> snd kv \<noteq> []"
  by (auto simp: node_dict_of_def or_placeholder_def split: if_splits)

lemma node_dict_keys [simp]: "map fst (node_dict_of g) = map fst (nx_node g)"
  by (simp add: node_dict_of_def)

text \<open>The index of the frame built from a dictionary whose rows all have a column.\<close>

lemma from_dict_index_index_set:
  assumes "\<And>kv. kv \<in> set data \<Longrightarrow> snd kv \<noteq> []"
  shows "set (df_index (from_dict_index data)) = fst ` set data"
proof -
  let ?cols = "first_seen (concat (map (\<lambda>kv. dict_keys (snd kv)) data))"
  have "fst kv \<in> set (df_index (from_dict_index data))" if kv: "kv \<in> set data" for kv
  proof -
    from assms[OF kv] obtain c where c: "c \<in> set (dict_keys (snd kv))"
      by (cases "snd kv") (auto simp: dict_keys_def)
    with kv have "c \<in> set ?cols" by auto
    with kv c show ?thesis
      by (auto simp: from_dict_index_def Let_def dict_keys_def intro!: bexI[of _ c] image_eqI[of _ _ kv])
  qed
  moreover have "k \<in> fst ` set data" if "k \<in> set (df_index (from_dict_index data))" for k
    using that by (auto simp: from_dict_index_def Let_def dict_keys_def)
  ultimately show ?thesis by blast
qed

lemma from_dict_index_simps:
  "df_columns (from_dict_index data) = first_seen (concat (map (\<lambda>kv. dict_keys (snd kv)) data))"
  "df_data (from_dict_index data) =
     map (\<lambda>k. map (\<lambda>c. dict_get (dict_get data k []) c VNull) (df_columns (from_dict_index data)))
       (df_index (from_dict_index data))"
  "distinct (df_index (from_dict_index data))"
  by (simp_all add: from_dict_index_def Let_def)

section \<open>The nodes table of a graph object\<close>

lemma df_drop_functional:
  assumes "c \<in> set (a # cols)"
  shows "df_drop \<lparr>df_index = ix, df_columns = a # cols,
                  df_data = map (\<lambda>k. h k # map (f k) cols) idx\<rparr> c =
    Inr \<lparr>df_index = ix, df_columns = filter (\<lambda>k. k \<noteq> c) (a # cols),
         df_data = map (\<lambda>k. (if a \<noteq> c then [h k] else []) @ map (f k) (filter (\<lambda>k. k \<noteq> c) cols)) idx\<rparr>"
  using assms
  by (auto simp: df_drop_def map_snd_filter_zip_map[where P = "\<lambda>k. k \<noteq> c"])

lemma extract_nodes_table_attr_id:
  assumes i: "i \<in> set (node_attr_names g)" and ip: "i \<noteq> placeholder"
    and ix: "''index'' \<notin> set (node_attr_names g)"
  shows "extract_nodes_table g i =
    Inr \<lparr>column_names = filter (\<lambda>c. c \<noteq> placeholder) (node_attr_names g),
         rows = map (\<lambda>n. map (node_attr g n) (filter (\<lambda>c. c \<noteq> placeholder) (node_attr_names g)))
                  (df_index (from_dict_index (node_dict_of g)))\<rparr>"
proof -
  define nd where "nd = node_dict_of g"
  define df where "df = from_dict_index nd"
  define cols where "cols = df_columns df"
  define idx where "idx = df_index df"
  define f where "f = (\<lambda>k c. dict_get (dict_get nd k []) c VNull)"
  define cols' where "cols' = filter (\<lambda>c. c \<noteq> placeholder) cols"
  define rix where "rix = range_index (length idx)"
  have cols': "cols' = filter (\<lambda>c. c \<noteq> placeholder) (node_attr_names g)"
    by (simp add: cols'_def cols_def df_def nd_def from_dict_index_simps first_seen_filter
        node_dict_keys_filter node_attr_names_def)
  have pi: "placeholder \<noteq> ''index''" by (simp add: placeholder_def)
  have ix_cols': "''index'' \<notin> set cols'" using ix unfolding cols' by simp
  have ix_cols: "''index'' \<notin> set cols" using ix_cols' pi by (simp add: cols'_def)
  have i_cols: "i \<in> set cols'" using i ip unfolding cols' by simp
  have data: "df_data df = map (\<lambda>k. map (f k) cols) idx"
    by (simp add: df_def cols_def idx_def f_def from_dict_index_simps)
  have reset: "reset_index df =
    Inr \<lparr>df_index = rix, df_columns = ''index'' # cols, df_data = map (\<lambda>k. k # map (f k) cols) idx\<rparr>"
    using ix_cols
    by (simp add: reset_index_def data zip_map2 zip_same_conv_map rix_def flip: cols_def idx_def)
  let ?d0 = "\<lparr>df_index = rix, df_columns = ''index'' # cols, df_data = map (\<lambda>k. k # map (f k) cols) idx\<rparr>"
  let ?d1 = "\<lparr>df_index = rix, df_columns = ''index'' # cols', df_data = map (\<lambda>k. k # map (f k) cols') idx\<rparr>"
  have step1: "(if placeholder \<in> set (df_columns ?d0) then df_drop ?d0 placeholder else Inr ?d0) = Inr ?d1"
  proof (cases "placeholder \<in> set (''index'' # cols)")
    case True
    show ?thesis
      using df_drop_functional[OF True, of rix "\<lambda>k. k" f idx] True pi
      by (simp add: cols'_def)
  next
    case False
    then have "cols' = cols" by (auto simp: filter_id_conv cols'_def)
    with False show ?thesis by simp
  qed
  have f2: "filter (\<lambda>k. k \<noteq> ''index'') cols' = cols'"
    using ix_cols' by (auto simp: filter_id_conv)
  have step2: "df_drop ?d1 ''index'' =
     Inr \<lparr>df_index = rix, df_columns = cols', df_data = map (\<lambda>k. map (f k) cols') idx\<rparr>"
    using df_drop_functional[of "''index''" "''index''" cols' rix "\<lambda>k. k" f idx]
    by (simp add: f2)
  have cells: "map (f k) cols' = map (node_attr g k) cols'" for k
    by (rule map_cong) (auto simp: dict_get_node_dict_of f_def nd_def cols'_def)
  have "extract_nodes_table g i = Inr \<lparr>column_names = cols', rows = map (\<lambda>k. map (node_attr g k) cols') idx\<rparr>"
    unfolding extract_nodes_table_def
    using reset step1 step2 i_cols
    by (simp add: table_of_dataframe_def cells flip: nd_def df_def)
  then show ?thesis
    by (simp add: cols' idx_def df_def nd_def)
qed

lemma select_column_functional:
  assumes "c \<in> set cols"
  shows "select_column \<lparr>column_names = cols, rows = map (\<lambda>n. map (f n) cols) ns\<rparr> c =
         map (\<lambda>n. f n c) ns"
proof -
  have "map_of (zip cols (map (f n) cols)) c = Some (f n c)" for n
    using assms by (induction cols) auto
  then show ?thesis by (simp add: select_column_def)
qed

section \<open>Graph objects: endpoints and edges\<close>

lemma dict_get_update:
  "dict_get (AList.update k v al) k' d = (if k' = k then v else dict_get al k' d)"
  by (simp add: dict_get_def update_conv')

lemma dict_get_Nil [simp]: "dict_get [] k d = d"
  by (simp add: dict_get_def)

lemma dict_get_notin: "k \<notin> fst ` set al \<Longrightarrow> dict_get al k d = d"
  by (simp add: dict_get_def map_of_eq_None_iff[THEN iffD2])

lemma wf_empty_graph [simp]: "wf_graph (empty_graph c)"
  by (simp add: wf_graph_def empty_graph_def adj_get_def adj_nbrs_def)

lemma add_endpoint_cases:
  assumes "add_endpoint g n = Inr g'" and "wf_graph g"
  shows "(n \<in> set (map fst (nx_node g)) \<and> g' = g) \<or>
         (n \<notin> set (map fst (nx_node g)) \<and> n \<noteq> VNull \<and>
          g' = g\<lparr>nx_adj := nx_adj g @ [(n, [])], nx_node := nx_node g @ [(n, [])]\<rparr>)"
proof -
  have k: "map fst (nx_adj g) = map fst (nx_node g)" using assms(2) by (simp add: wf_graph_def)
  have app: "m \<notin> set (map fst al) \<Longrightarrow> AList.update m v al = al @ [(m, v)]" for m v and al :: "('a \<times> 'b) list"
    by (induction al) auto
  show ?thesis
    using assms(1) k app[of n "nx_adj g"] app[of n "nx_node g"] 
    by (auto simp: add_endpoint_def dict_keys_def split: if_splits)
qed

lemma add_endpoint_props:
  assumes "add_endpoint g n = Inr g'" and "wf_graph g"
  shows "wf_graph g'" and "nx_class g' = nx_class g" and "adj_nbrs g' = adj_nbrs g"
    and "n \<in> set (map fst (nx_node g'))"
    and "map fst (nx_node g') = map fst (nx_node g) @ (if n \<in> set (map fst (nx_node g)) then [] else [n])"
    and "\<And>m. m \<in> set (map fst (nx_node g)) \<Longrightarrow> map_of (nx_node g') m = map_of (nx_node g) m"
    and "n \<notin> set (map fst (nx_node g)) \<Longrightarrow> map_of (nx_node g') n = Some []"
    and "n \<noteq> VNull \<or> n \<in> set (map fst (nx_node g))"
proof -
  from add_endpoint_cases[OF assms] consider
    (old) "n \<in> set (map fst (nx_node g))" "g' = g"
    | (new) "n \<notin> set (map fst (nx_node g))" "n \<noteq> VNull"
      "g' = g\<lparr>nx_adj := nx_adj g @ [(n, [])], nx_node := nx_node g @ [(n, [])]\<rparr>"
    by blast
  note c = this
  have k: "map fst (nx_adj g) = map fst (nx_node g)" using assms(2) by (simp add: wf_graph_def)
  show nb: "adj_nbrs g' = adj_nbrs g"
  proof (cases rule: c)
    case old then show ?thesis by simp
  next
    case new
    then have "n \<notin> fst ` set (nx_adj g)" using k by (metis set_map)
    then have "map_of (nx_adj g) n = None" by (simp add: map_of_eq_None_iff)
    then show ?thesis using new
      by (auto simp: adj_nbrs_def dict_get_def fun_eq_iff map_add_def split: option.splits)
  qed
  then have ag: "adj_get g' = adj_get g" by (simp add: adj_get_def fun_eq_iff)
  show cl: "nx_class g' = nx_class g" by (cases rule: c) simp_all
  show "wf_graph g'"
    using assms(2) nb ag cl k by (cases rule: c) (auto simp: wf_graph_def)
  show "n \<in> set (map fst (nx_node g'))" by (cases rule: c) simp_all
  show "map fst (nx_node g') = map fst (nx_node g) @ (if n \<in> set (map fst (nx_node g)) then [] else [n])"
    by (cases rule: c) simp_all
  show "map_of (nx_node g') m = map_of (nx_node g) m" if "m \<in> set (map fst (nx_node g))" for m
  proof (cases rule: c)
    case old then show ?thesis by simp
  next
    case new
    from that obtain a where "map_of (nx_node g) m = Some a"
      by (metis map_of_eq_None_iff not_Some_eq set_map)
    then show ?thesis using new by (simp add: map_add_def)
  qed
  show "map_of (nx_node g') n = Some []" if "n \<notin> set (map fst (nx_node g))"
  proof (cases rule: c)
    case old with that show ?thesis by simp
  next
    case new
    then have "map_of (nx_node g) n = None" by (simp add: map_of_eq_None_iff)
    then show ?thesis using new by (simp add: map_add_def)
  qed
  show "n \<noteq> VNull \<or> n \<in> set (map fst (nx_node g))" by (cases rule: c) simp_all
qed


lemma new_edge_key_cong: "adj_nbrs g' = adj_nbrs g \<Longrightarrow> new_edge_key g' u v = new_edge_key g u v"
  by (simp add: new_edge_key_def adj_nbrs_def fun_eq_iff)

lemma update_existing_keys:
  "k \<in> set (map fst al) \<Longrightarrow> map fst (AList.update k v al) = map fst al"
  by (simp add: update_keys)

lemma add_edge_unfold:
  assumes "add_edge g a b key attr = Inr g'" and "wf_graph g"
  obtains g1 g2 where "add_endpoint g a = Inr g1" and "add_endpoint g1 b = Inr g2"
    and "g' = g2\<lparr>nx_adj :=
          (let kd' = updated_keydict g a b key attr;
               adj1 = AList.update a (AList.update b kd' (adj_nbrs g a)) (nx_adj g2)
           in if is_directed (nx_class g) then adj1
              else AList.update b (AList.update a kd' (dict_get adj1 b [])) adj1)\<rparr>"
proof -
  from assms(1) obtain g1 g2 where g1: "add_endpoint g a = Inr g1"
    and g2: "add_endpoint g1 b = Inr g2"
    by (auto simp: add_edge_def split: sum.splits)
  note p1 = add_endpoint_props[OF g1 assms(2)]
  note p2 = add_endpoint_props[OF g2 p1(1)]
  have nb: "adj_nbrs g2 = adj_nbrs g" using p1(3) p2(3) by simp
  have cl: "nx_class g2 = nx_class g" using p1(2) p2(2) by simp
  have nk: "new_edge_key g2 a b = new_edge_key g a b" by (rule new_edge_key_cong[OF nb])
  have ek: "edge_key g2 a b key = edge_key g a b key"
    by (cases key) (simp_all add: edge_key_def cl nk)
  have uk: "updated_keydict g2 a b key attr = updated_keydict g a b key attr"
    by (simp add: updated_keydict_def ek nb)
  have "g' = g2\<lparr>nx_adj :=
          (let kd' = updated_keydict g2 a b key attr;
               adj1 = AList.update a (AList.update b kd' (adj_nbrs g2 a)) (nx_adj g2)
           in if is_directed (nx_class g2) then adj1
              else AList.update b (AList.update a kd' (dict_get adj1 b [])) adj1)\<rparr>"
    using assms(1) g1 g2
    by (simp add: add_edge_def Let_def updated_keydict_def edge_key_def adj_nbrs_def)
  then have "g' = g2\<lparr>nx_adj :=
          (let kd' = updated_keydict g a b key attr;
               adj1 = AList.update a (AList.update b kd' (adj_nbrs g a)) (nx_adj g2)
           in if is_directed (nx_class g) then adj1
              else AList.update b (AList.update a kd' (dict_get adj1 b [])) adj1)\<rparr>"
    by (simp only: uk nb cl)
  with g1 g2 show ?thesis by (rule that)
qed

lemma add_edge_props:
  assumes ae: "add_edge g a b key attr = Inr g'" and wf: "wf_graph g"
  shows "wf_graph g'" and "nx_class g' = nx_class g"
    and "\<And>u v. adj_get g' u v =
          (if (u, v) = (a, b) \<or> (\<not> is_directed (nx_class g) \<and> (u, v) = (b, a))
           then Some (updated_keydict g a b key attr) else adj_get g u v)"
    and "map fst (nx_node g') = map fst (nx_node g) @
           filter (\<lambda>n. n \<notin> set (map fst (nx_node g))) (if a = b then [a] else [a, b])"
    and "\<And>m. m \<in> set (map fst (nx_node g)) \<Longrightarrow> map_of (nx_node g') m = map_of (nx_node g) m"
    and "\<And>m. m \<in> set (map fst (nx_node g')) \<Longrightarrow> m \<notin> set (map fst (nx_node g)) \<Longrightarrow>
           map_of (nx_node g') m = Some []"
proof -
  obtain g1 g2 where g1: "add_endpoint g a = Inr g1" and g2: "add_endpoint g1 b = Inr g2"
    and g': "g' = g2\<lparr>nx_adj :=
          (let kd' = updated_keydict g a b key attr;
               adj1 = AList.update a (AList.update b kd' (adj_nbrs g a)) (nx_adj g2)
           in if is_directed (nx_class g) then adj1
              else AList.update b (AList.update a kd' (dict_get adj1 b [])) adj1)\<rparr>"
    using add_edge_unfold[OF ae wf] by blast
  note p1 = add_endpoint_props[OF g1 wf]
  note p2 = add_endpoint_props[OF g2 p1(1)]
  define kd' where "kd' = updated_keydict g a b key attr"
  define X where "X = AList.update b kd' (adj_nbrs g a)"
  define adj1 where "adj1 = AList.update a X (nx_adj g2)"
  define Y where "Y = AList.update a kd' (dict_get adj1 b [])"
  have nb: "adj_nbrs g2 = adj_nbrs g" using p1(3) p2(3) by simp
  have cl: "nx_class g2 = nx_class g" using p1(2) p2(2) by simp
  have wf2: "wf_graph g2" by (rule p2(1))
  have keys2: "map fst (nx_adj g2) = map fst (nx_node g2)" using wf2 by (simp add: wf_graph_def)
  have a2: "a \<in> set (map fst (nx_node g2))" using p1(4) p2(5) by auto
  have b2: "b \<in> set (map fst (nx_node g2))" using p2(4) by simp
  have adj': "nx_adj g' = (if is_directed (nx_class g) then adj1 else AList.update b Y adj1)"
    by (simp add: g' Let_def kd'_def X_def adj1_def Y_def)
  have node': "nx_node g' = nx_node g2" by (simp add: g')
  show cl': "nx_class g' = nx_class g" by (simp add: g' cl)
  have k1: "map fst adj1 = map fst (nx_adj g2)"
    unfolding adj1_def using a2 keys2 by (simp add: update_existing_keys)
  have k': "map fst (nx_adj g') = map fst (nx_adj g2)"
    using b2 keys2 k1 by (simp add: adj' update_existing_keys)
  have nb1: "dict_get adj1 u [] = (if u = a then X else adj_nbrs g u)" for u
    by (simp add: adj1_def dict_get_update nb[symmetric] adj_nbrs_def)
  have nb': "adj_nbrs g' u =
      (if is_directed (nx_class g) then (if u = a then X else adj_nbrs g u)
       else if u = b then Y else if u = a then X else adj_nbrs g u)" for u
    by (simp add: adj_nbrs_def adj' dict_get_update nb1)
  have Y: "Y = AList.update a kd' (if b = a then X else adj_nbrs g b)"
    by (simp add: Y_def nb1)
  show ag': "adj_get g' u v =
          (if (u, v) = (a, b) \<or> (\<not> is_directed (nx_class g) \<and> (u, v) = (b, a))
           then Some (updated_keydict g a b key attr) else adj_get g u v)" for u v
    by (auto simp: adj_get_def nb' Y X_def update_conv' kd'_def)
  have d: "distinct (map fst (adj_nbrs g u))" for u using wf by (simp add: wf_graph_def)
  have dX: "distinct (map fst X)" unfolding X_def by (rule distinct_update[OF d])
  have dY: "distinct (map fst Y)" unfolding Y using dX d by (auto intro: distinct_update)
  have dkd: "distinct (map fst kd)" if "adj_get g u v = Some kd" for u v kd
    using wf that by (auto simp: wf_graph_def)
  have dkd0: "distinct (map fst (dict_get (adj_nbrs g a) b []))"
    using dkd[of a b] by (cases "adj_get g a b") (simp_all add: adj_get_def dict_get_def)
  have dkd': "distinct (map fst kd')"
    unfolding kd'_def updated_keydict_def Let_def by (rule distinct_update[OF dkd0])
  have sym: "adj_get g u v = adj_get g v u" if "\<not> is_directed (nx_class g)" for u v
    using wf that by (simp add: wf_graph_def)
  show "wf_graph g'"
    unfolding wf_graph_def
  proof (intro conjI allI impI)
    show "distinct (map fst (nx_node g'))" using wf2 by (simp add: node' wf_graph_def)
    show "map fst (nx_adj g') = map fst (nx_node g')" by (simp add: k' keys2 node')
    show "distinct (map fst (adj_nbrs g' u))" for u using dX dY d by (simp add: nb')
    show "distinct (map fst kd)" if "adj_get g' u v = Some kd" for u v kd
      using that dkd dkd' by (auto simp: ag' kd'_def split: if_splits)
    show "adj_get g' u v = adj_get g' v u" if "\<not> is_directed (nx_class g')" for u v
      using that sym by (auto simp: ag' cl')
  qed
  show "map fst (nx_node g') = map fst (nx_node g) @
           filter (\<lambda>n. n \<notin> set (map fst (nx_node g))) (if a = b then [a] else [a, b])"
    using p1(5) p2(5) by (auto simp: node')
  show "map_of (nx_node g') m = map_of (nx_node g) m" if "m \<in> set (map fst (nx_node g))" for m
  proof -
    have "m \<in> set (map fst (nx_node g1))" using that p1(5) by simp
    then show ?thesis using p1(6)[OF that] p2(6)[of m] by (simp add: node')
  qed
  show "map_of (nx_node g') m = Some []"
    if "m \<in> set (map fst (nx_node g'))" "m \<notin> set (map fst (nx_node g))" for m
  proof (cases "m \<in> set (map fst (nx_node g1))")
    case True
    then have "m = a" using that(2) p1(5) by (auto split: if_splits)
    then have "map_of (nx_node g1) m = Some []" using p1(7) that(2) by simp
    then show ?thesis using p2(6)[OF True] by (simp add: node')
  next
    case False
    then have "m = b" using that(1) p2(5) by (auto simp: node' split: if_splits)
    then show ?thesis using p2(7) False by (simp add: node')
  qed
qed

section \<open>The edge view of a well-formed graph\<close>

lemma head_edges_mem:
  "(n, v, k, dd) \<in> set (concat (map (\<lambda>(nbr, keydict).
         if P nbr then [] else map (\<lambda>(k, dd). (m, nbr, k, dd)) keydict) nbrs)) \<longleftrightarrow>
   n = m \<and> (\<exists>kd. (v, kd) \<in> set nbrs \<and> (k, dd) \<in> set kd \<and> \<not> P v)"
proof (induction nbrs)
  case Nil
  then show ?case by simp
next
  case (Cons q nbrs)
  obtain w kd where q: "q = (w, kd)" by (cases q)
  show ?case
  proof (cases "P w")
    case True
    then show ?thesis using Cons.IH by (auto simp: q)
  next
    case False
    have "(n, v, k, dd) \<in> (\<lambda>(k, dd). (m, w, k, dd)) ` set kd \<longleftrightarrow> n = m \<and> v = w \<and> (k, dd) \<in> set kd"
      by auto
    then show ?thesis using False Cons.IH by (auto simp: q)
  qed
qed

lemma head_edges_set:
  "set (concat (map (\<lambda>(nbr, keydict).
         if P nbr then [] else map (\<lambda>(k, dd). (m, nbr, k, dd)) keydict) nbrs)) =
   {(n, v, k, dd). n = m \<and> (\<exists>kd. (v, kd) \<in> set nbrs \<and> (k, dd) \<in> set kd \<and> \<not> P v)}"
  using head_edges_mem[of _ _ _ _ P m nbrs] by (intro set_eqI) (simp add: split_paired_all)

lemma adj_edges_set:
  assumes "distinct (map fst rest)"
  shows "set (adj_edges d seen rest) =
    {(n, v, k, dd). \<exists>nbrs kd. (n, nbrs) \<in> set rest \<and> (v, kd) \<in> set nbrs \<and> (k, dd) \<in> set kd \<and>
        (d \<or> (v \<notin> set seen \<and> \<not> before (map fst rest) v n))}"
  using assms
proof (induction rest arbitrary: seen)
  case Nil
  then show ?case by simp
next
  case (Cons p rest)
  obtain m nbrs where p: "p = (m, nbrs)" by (cases p)
  from Cons.prems have dr: "distinct (map fst rest)" and m: "m \<notin> fst ` set rest"
    by (simp_all add: p)
  have b1: "before (m # map fst rest) v m = False" for v
    by (simp add: before_def)
  have b2: "before (m # map fst rest) v n = (v = m \<or> before (map fst rest) v n)"
    if "n \<noteq> m" for v n
    using that by (auto simp: before_def)
  have nm: "n \<noteq> m" if "(n, x) \<in> set rest" for n x
    using that m by force
  let ?H = "{(n, v, k, dd). n = m \<and> (\<exists>kd. (v, kd) \<in> set nbrs \<and> (k, dd) \<in> set kd \<and>
                \<not> (\<not> d \<and> v \<in> set seen))}"
  let ?T = "{(n, v, k, dd). \<exists>nbrs kd. (n, nbrs) \<in> set rest \<and> (v, kd) \<in> set nbrs \<and> (k, dd) \<in> set kd \<and>
        (d \<or> (v \<notin> set (m # seen) \<and> \<not> before (map fst rest) v n))}"
  have l: "set (adj_edges d seen (p # rest)) = ?H \<union> ?T"
    unfolding p adj_edges.simps set_append Cons.IH[OF dr]
    using head_edges_set[of "\<lambda>nbr. \<not> d \<and> nbr \<in> set seen" m nbrs] by simp
  have r: "{(n, v, k, dd). \<exists>nbrs' kd. (n, nbrs') \<in> set (p # rest) \<and> (v, kd) \<in> set nbrs' \<and>
        (k, dd) \<in> set kd \<and>
        (d \<or> (v \<notin> set seen \<and> \<not> before (map fst (p # rest)) v n))} = ?H \<union> ?T"
  proof (rule set_eqI)
    fix x :: "val \<times> val \<times> val \<times> attrs"
    obtain n v k dd where x: "x = (n, v, k, dd)" by (cases x) auto
    show "x \<in> {(n, v, k, dd). \<exists>nbrs' kd. (n, nbrs') \<in> set (p # rest) \<and> (v, kd) \<in> set nbrs' \<and>
        (k, dd) \<in> set kd \<and>
        (d \<or> (v \<notin> set seen \<and> \<not> before (map fst (p # rest)) v n))} \<longleftrightarrow> x \<in> ?H \<union> ?T"
    proof (cases "n = m")
      case True
      have "(m, nbrs') \<in> set (p # rest) \<longleftrightarrow> nbrs' = nbrs" for nbrs'
        using m by (auto simp: p) force
      then show ?thesis using True m by (auto simp: x p b1) force+
    next
      case False
      have "(n, nbrs') \<in> set (p # rest) \<longleftrightarrow> (n, nbrs') \<in> set rest" for nbrs'
        using False by (auto simp: p)
      then show ?thesis using False by (simp add: x p b2[OF False]) blast
    qed
  qed
  show ?case unfolding l r ..
qed

lemma head_edges_distinct:
  assumes "distinct (map fst nbrs)" and "\<And>v kd. (v, kd) \<in> set nbrs \<Longrightarrow> distinct (map fst kd)"
  shows "distinct (concat (map (\<lambda>(nbr, keydict).
         if P nbr then [] else map (\<lambda>(k, dd). (n, nbr, k, dd)) keydict) nbrs))"
  using assms
proof (induction nbrs)
  case Nil
  then show ?case by simp
next
  case (Cons q nbrs)
  obtain v kd where q: "q = (v, kd)" by (cases q)
  have dk: "distinct (map fst kd)" using Cons.prems(2)[of v kd] by (simp add: q)
  have inj: "inj_on (\<lambda>(k, dd). (n, v, k, dd)) (set kd)"
    by (auto simp: inj_on_def)
  have dkd: "distinct kd" using dk by (simp add: distinct_map)
  have d1: "distinct (map (\<lambda>(k, dd). (n, v, k, dd)) kd)"
    using dkd inj by (simp add: distinct_map)
  let ?rest = "concat (map (\<lambda>(nbr, keydict).
         if P nbr then [] else map (\<lambda>(k, dd). (n, nbr, k, dd)) keydict) nbrs)"
  have ih: "distinct ?rest"
    using Cons.prems by (intro Cons.IH) auto
  have v: "v \<notin> fst ` set nbrs" using Cons.prems(1) by (simp add: q)
  have disj: "set (map (\<lambda>(k, dd). (n, v, k, dd)) kd) \<inter> set ?rest = {}"
  proof (rule ccontr)
    assume "set (map (\<lambda>(k, dd). (n, v, k, dd)) kd) \<inter> set ?rest \<noteq> {}"
    then obtain x where x1: "x \<in> set (map (\<lambda>(k, dd). (n, v, k, dd)) kd)" and x2: "x \<in> set ?rest"
      by blast
    from x1 obtain k dd where x: "x = (n, v, k, dd)" by auto
    from x2 have "\<exists>kd'. (v, kd') \<in> set nbrs"
      unfolding x head_edges_mem by blast
    with v show False by force
  qed
  show ?case
  proof (cases "P v")
    case True
    then show ?thesis using ih by (simp add: q)
  next
    case False
    then show ?thesis using d1 ih disj by (simp add: q)
  qed
qed

lemma adj_edges_distinct:
  assumes "distinct (map fst rest)"
    and "\<And>n nbrs. (n, nbrs) \<in> set rest \<Longrightarrow> distinct (map fst nbrs)"
    and "\<And>n nbrs v kd. (n, nbrs) \<in> set rest \<Longrightarrow> (v, kd) \<in> set nbrs \<Longrightarrow> distinct (map fst kd)"
  shows "distinct (adj_edges d seen rest)"
  using assms
proof (induction rest arbitrary: seen)
  case Nil
  then show ?case by simp
next
  case (Cons p rest)
  obtain m nbrs where p: "p = (m, nbrs)" by (cases p)
  from Cons.prems(1) have dr: "distinct (map fst rest)" and m: "m \<notin> fst ` set rest"
    by (simp_all add: p)
  have h: "distinct (concat (map (\<lambda>(nbr, keydict).
         if \<not> d \<and> nbr \<in> set seen then [] else map (\<lambda>(k, dd). (m, nbr, k, dd)) keydict) nbrs))"
  proof (rule head_edges_distinct)
    show "distinct (map fst nbrs)" using Cons.prems(2)[of m nbrs] by (simp add: p)
    show "distinct (map fst kd)" if "(v, kd) \<in> set nbrs" for v kd
      using Cons.prems(3)[of m nbrs v kd] that by (simp add: p)
  qed
  have t: "distinct (adj_edges d (m # seen) rest)"
  proof (rule Cons.IH[OF dr])
    show "distinct (map fst nbrs')" if "(n, nbrs') \<in> set rest" for n nbrs'
      using Cons.prems(2)[of n nbrs'] that by simp
    show "distinct (map fst kd)" if "(n, nbrs') \<in> set rest" "(v, kd) \<in> set nbrs'" for n nbrs' v kd
      using Cons.prems(3)[of n nbrs' v kd] that by simp
  qed
  have fst_t: "fst x \<noteq> m" if "x \<in> set (adj_edges d (m # seen) rest)" for x
    using that m unfolding adj_edges_set[OF dr] by force
  have fst_h: "fst x = m" if "x \<in> set (concat (map (\<lambda>(nbr, keydict).
         if \<not> d \<and> nbr \<in> set seen then [] else map (\<lambda>(k, dd). (m, nbr, k, dd)) keydict) nbrs))" for x
    using that by (auto split: if_splits)
  show ?case
    unfolding p adj_edges.simps distinct_append
    using h t fst_t fst_h by blast
qed

lemma wf_graph_adj:
  assumes "wf_graph g"
  shows "distinct (map fst (nx_adj g))"
    and "(n, nbrs) \<in> set (nx_adj g) \<Longrightarrow> adj_nbrs g n = nbrs"
    and "(n, nbrs) \<in> set (nx_adj g) \<Longrightarrow> distinct (map fst nbrs)"
    and "(n, nbrs) \<in> set (nx_adj g) \<Longrightarrow> (v, kd) \<in> set nbrs \<Longrightarrow> adj_get g n v = Some kd"
    and "adj_get g n v = Some kd \<Longrightarrow> (n, adj_nbrs g n) \<in> set (nx_adj g) \<and> (v, kd) \<in> set (adj_nbrs g n)"
proof -
  show d: "distinct (map fst (nx_adj g))" using assms by (simp add: wf_graph_def)
  show nb: "adj_nbrs g n = nbrs" if "(n, nbrs) \<in> set (nx_adj g)" for n nbrs
    using that d by (simp add: adj_nbrs_def dict_get_def)
  show dn: "distinct (map fst nbrs)" if "(n, nbrs) \<in> set (nx_adj g)" for n nbrs
    using assms nb[OF that] by (auto simp: wf_graph_def)
  show "adj_get g n v = Some kd" if "(n, nbrs) \<in> set (nx_adj g)" "(v, kd) \<in> set nbrs" for n nbrs v kd
    using nb[OF that(1)] dn[OF that(1)] that(2) by (simp add: adj_get_def)
  show "(n, adj_nbrs g n) \<in> set (nx_adj g) \<and> (v, kd) \<in> set (adj_nbrs g n)"
    if "adj_get g n v = Some kd"
  proof -
    from that have 1: "(v, kd) \<in> set (adj_nbrs g n)" by (auto simp: adj_get_def dest: map_of_SomeD)
    then have "adj_nbrs g n \<noteq> []" by auto
    then obtain nbrs where "map_of (nx_adj g) n = Some nbrs"
      by (cases "map_of (nx_adj g) n") (auto simp: adj_nbrs_def dict_get_def)
    then have "(n, adj_nbrs g n) \<in> set (nx_adj g)"
      by (auto simp: adj_nbrs_def dict_get_def dest: map_of_SomeD)
    with 1 show ?thesis by simp
  qed
qed

lemma edges_of_wf_graph:
  assumes "wf_graph g"
  shows "set (adj_edges (is_directed (nx_class g)) [] (nx_adj g)) = edge_set g"
    and "distinct (adj_edges (is_directed (nx_class g)) [] (nx_adj g))"
    and "number_of_edges g = card (edge_set g)"
proof -
  note w = wf_graph_adj[OF assms]
  have dk: "distinct (map fst kd)" if "adj_get g n v = Some kd" for n v kd
    using assms that by (auto simp: wf_graph_def)
  show s: "set (adj_edges (is_directed (nx_class g)) [] (nx_adj g)) = edge_set g"
    unfolding adj_edges_set[OF w(1)] edge_set_def reported_def
    using w(4) w(5) by auto blast+
  show d: "distinct (adj_edges (is_directed (nx_class g)) [] (nx_adj g))"
    by (rule adj_edges_distinct[OF w(1)]) (use w(3) w(4) dk in blast)+
  show "number_of_edges g = card (edge_set g)"
    using distinct_card[OF d] s by (simp add: number_of_edges_def edges_data_def)
qed

section \<open>Counting the edges that \<open>add_edge\<close> adds\<close>

lemma before_append: "n \<in> set ks \<Longrightarrow> before (ks @ new) v n = before ks v n"
  by (induction ks) (auto simp: before_def)

lemma before_refl: "\<not> before ks a a"
  by (auto simp: before_def dest: set_takeWhileD)

lemma before_total:
  assumes "a \<in> set ks" and "b \<in> set ks" and "a \<noteq> b"
  shows "before ks a b \<longleftrightarrow> \<not> before ks b a"
  using assms by (induction ks) (auto simp: before_def)

lemma adj_get_in_keys:
  assumes "wf_graph g" and "adj_get g n v = Some kd"
  shows "n \<in> set (map fst (nx_adj g))"
  using wf_graph_adj(5)[OF assms] by force

lemma edge_set_finite: "wf_graph g \<Longrightarrow> finite (edge_set g)"
  using edges_of_wf_graph(1)[of g] by (metis List.finite_set)

lemma length_update:
  "length (AList.update k v al) = length al + (if k \<in> set (map fst al) then 0 else 1)"
  by (induction al) auto

lemma add_edge_count:
  assumes ae: "add_edge g a b key attr = Inr g'" and wf: "wf_graph g"
  shows "number_of_edges g' = number_of_edges g +
     (if edge_key g a b key \<in> set (map fst (dict_get (adj_nbrs g a) b [])) then 0 else 1)"
proof -
  note p = add_edge_props[OF ae wf]
  define kd where "kd = dict_get (adj_nbrs g a) b []"
  define kd' where "kd' = updated_keydict g a b key attr"
  define A where "A = {(a, b)} \<union> (if is_directed (nx_class g) then {} else {(b, a)})"
  define B where "B = {(n, v, k, dd). (n, v, k, dd) \<in> edge_set g \<and> (n, v) \<notin> A}"
  define K where "K = map fst (nx_adj g)"
  define K' where "K' = map fst (nx_adj g')"
  have wf': "wf_graph g'" by (rule p(1))
  have ag': "adj_get g' n v = (if (n, v) \<in> A then Some kd' else adj_get g n v)" for n v
    by (auto simp: p(3) A_def kd'_def)
  have sym: "adj_get g b a = adj_get g a b" if "\<not> is_directed (nx_class g)"
    using wf that by (simp add: wf_graph_def)
  have agA: "adj_get g n v = adj_get g a b" if "(n, v) \<in> A" for n v
    using that sym by (auto simp: A_def split: if_splits)
  have kd: "kd = (case adj_get g a b of None \<Rightarrow> [] | Some x \<Rightarrow> x)"
    by (simp add: kd_def adj_get_def dict_get_def)
  have KK: "K = map fst (nx_node g)" "K' = map fst (nx_node g')"
    using wf wf' by (simp_all add: K_def K'_def wf_graph_def)
  have K': "K' = K @ filter (\<lambda>n. n \<notin> set K) (if a = b then [a] else [a, b])"
    using p(4) by (simp add: KK)
  have aK: "a \<in> set K'" and bK: "b \<in> set K'" by (auto simp: K')
  have dK: "distinct K'" using wf' by (simp add: KK wf_graph_def)
  have rep_old: "reported g' n v = reported g n v" if "n \<in> set K" for n v
    using that before_append[of n K _ v]
    by (simp add: reported_def p(2) K' flip: K_def K'_def)
  have dom_old: "n \<in> set K" if "adj_get g n v = Some x" for n v x
    using adj_get_in_keys[OF wf that] by (simp add: K_def)
  text \<open>the one pair of \<open>A\<close> at which the new graph reports the edge\<close>
  obtain x y where xy: "(x, y) \<in> A" and R: "\<And>n v. (n, v) \<in> A \<Longrightarrow> reported g' n v \<longleftrightarrow> (n, v) = (x, y)"
  proof (cases "is_directed (nx_class g) \<or> a = b")
    case True
    then have "A = {(a, b)}" by (auto simp: A_def)
    moreover have "reported g' a b"
      using True before_refl[of K' a] by (auto simp: reported_def p(2) simp flip: K'_def)
    ultimately show ?thesis using that[of a b] by auto
  next
    case False
    then have A: "A = {(a, b), (b, a)}" and ne: "a \<noteq> b" and ud: "\<not> is_directed (nx_class g')"
      by (auto simp: A_def p(2))
    have r: "reported g' n v \<longleftrightarrow> \<not> before K' v n" for n v
      using ud by (simp add: reported_def K'_def)
    show ?thesis
    proof (cases "before K' b a")
      case True
      then have "\<not> before K' a b" using before_total[OF bK aK] ne by auto
      then show ?thesis using that[of b a] True ne by (auto simp: A r)
    next
      case False
      then have "before K' a b" using before_total[OF aK bK ne] by auto
      then show ?thesis using that[of a b] False ne by (auto simp: A r)
    qed
  qed
  let ?f = "\<lambda>(k, dd). (x, y, k, dd)"
  have inj: "inj_on ?f S" for S :: "(val \<times> attrs) set" by (auto simp: inj_on_def)
  have eg': "edge_set g' = B \<union> ?f ` set kd'"
  proof (rule set_eqI)
    fix e :: "val \<times> val \<times> val \<times> attrs"
    obtain n v k dd where e: "e = (n, v, k, dd)" by (cases e) auto
    show "e \<in> edge_set g' \<longleftrightarrow> e \<in> B \<union> ?f ` set kd'"
    proof (cases "(n, v) \<in> A")
      case True
      have "e \<in> edge_set g' \<longleftrightarrow> (k, dd) \<in> set kd' \<and> (n, v) = (x, y)"
        using True R[OF True] by (auto simp: e edge_set_def ag')
      moreover have "e \<notin> B" using True by (simp add: B_def e)
      ultimately show ?thesis by (auto simp: e)
    next
      case False
      then have nxy: "(n, v) \<noteq> (x, y)" using xy by auto
      have "e \<in> edge_set g' \<longleftrightarrow> e \<in> edge_set g"
        using False rep_old dom_old by (auto simp: e edge_set_def ag')
      then show ?thesis using False nxy by (auto simp: B_def e)
    qed
  qed
  have eg: "edge_set g = B \<union> ?f ` set kd"
  proof (rule set_eqI)
    fix e :: "val \<times> val \<times> val \<times> attrs"
    obtain n v k dd where e: "e = (n, v, k, dd)" by (cases e) auto
    show "e \<in> edge_set g \<longleftrightarrow> e \<in> B \<union> ?f ` set kd"
    proof (cases "(n, v) \<in> A")
      case True
      have "e \<in> edge_set g \<longleftrightarrow> (k, dd) \<in> set kd \<and> (n, v) = (x, y)"
      proof (cases "adj_get g a b")
        case None
        then show ?thesis using agA[OF True] by (simp add: e edge_set_def kd)
      next
        case (Some z)
        then have "n \<in> set K" using dom_old[of n v z] agA[OF True] by simp
        then show ?thesis using Some agA[OF True] R[OF True] rep_old[of n v]
          by (auto simp: e edge_set_def kd)
      qed
      moreover have "e \<notin> B" using True by (simp add: B_def e)
      ultimately show ?thesis by (auto simp: e)
    next
      case False
      then have nxy: "(n, v) \<noteq> (x, y)" using xy by auto
      then show ?thesis using False by (auto simp: B_def e)
    qed
  qed
  have finB: "finite B" using edge_set_finite[OF wf] eg by simp
  have disj: "B \<inter> ?f ` S = {}" for S using xy by (auto simp: B_def)
  have dkd: "distinct (map fst kd)"
    using wf by (cases "adj_get g a b") (auto simp: kd wf_graph_def)
  have dkd': "distinct (map fst kd')"
    unfolding kd'_def updated_keydict_def Let_def using dkd
    by (auto intro: distinct_update simp: kd_def)
  have c: "card (?f ` set z) = length z" if "distinct (map fst z)" for z :: keydict
  proof -
    have "distinct z" using that by (simp add: distinct_map)
    then have "card (set z) = length z" by (rule distinct_card)
    moreover have "card (?f ` set z) = card (set z)"
      using inj[of "set z"] by (rule card_image)
    ultimately show ?thesis by simp
  qed
  have "card (edge_set g') = card B + length kd'"
    unfolding eg' using finB disj c[OF dkd'] by (simp add: card_Un_disjoint)
  moreover have "card (edge_set g) = card B + length kd"
    unfolding eg using finB disj c[OF dkd] by (simp add: card_Un_disjoint)
  moreover have "length kd' = length kd + (if edge_key g a b key \<in> set (map fst kd) then 0 else 1)"
    by (simp add: kd'_def updated_keydict_def Let_def length_update kd_def)
  ultimately show ?thesis
    using edges_of_wf_graph(3)[OF wf] edges_of_wf_graph(3)[OF wf']
    by (simp add: kd_def)
qed

section \<open>Updating dictionaries with a row\<close>

lemma update_absent: "k \<notin> set (map fst al) \<Longrightarrow> AList.update k v al = al @ [(k, v)]"
  by (induction al) auto

lemma dict_update_snoc:
  "dict_update d (other @ [kv]) = AList.update (fst kv) (snd kv) (dict_update d other)"
  by (simp add: dict_update_def)

lemma dict_update_empty:
  "distinct (map fst other) \<Longrightarrow> dict_update [] other = other"
proof (induction other rule: rev_induct)
  case Nil
  then show ?case by (simp add: dict_update_def)
next
  case (snoc kv other)
  then have "dict_update [] other = other" and "fst kv \<notin> set (map fst other)" by simp_all
  then show ?case by (simp add: dict_update_snoc update_absent)
qed

lemma dict_update_keys_subset:
  "set (map fst other) \<subseteq> set (map fst d) \<Longrightarrow> map fst (dict_update d other) = map fst d"
proof (induction other rule: rev_induct)
  case Nil
  then show ?case by (simp add: dict_update_def)
next
  case (snoc kv other)
  then show ?case by (simp add: dict_update_snoc update_keys)
qed

lemma map_of_dict_update:
  "distinct (map fst other) \<Longrightarrow> map_of (dict_update d other) = map_of d ++ map_of other"
proof (induction other rule: rev_induct)
  case Nil
  then show ?case by (simp add: dict_update_def)
next
  case (snoc kv other)
  then have ih: "map_of (dict_update d other) = map_of d ++ map_of other"
    and nk: "fst kv \<notin> fst ` set other" by simp_all
  have "map_of other (fst kv) = None" using nk by (simp add: map_of_eq_None_iff)
  then have e: "map_of (other @ [kv]) = (map_of other)(fst kv \<mapsto> snd kv)"
    by (auto simp: fun_eq_iff map_add_def split: option.splits)
  have "map_of (dict_update d (other @ [kv])) = (map_of d ++ map_of other)(fst kv \<mapsto> snd kv)"
    by (simp only: dict_update_snoc update_conv' ih)
  also have "\<dots> = map_of d ++ (map_of other)(fst kv \<mapsto> snd kv)"
    by (simp only: map_add_upd)
  finally show ?case by (simp only: e)
qed

lemma alist_eqI:
  assumes "map fst xs = map fst ys" and "distinct (map fst xs)" and "map_of xs = map_of ys"
  shows "xs = ys"
proof -
  have "length xs = length ys" using assms(1) by (metis length_map)
  then show ?thesis using assms
  proof (induction xs ys rule: list_induct2)
    case Nil
    then show ?case by simp
  next
    case (Cons x xs y ys)
    obtain k v where x: "x = (k, v)" by (cases x)
    obtain k' v' where y: "y = (k', v')" by (cases y)
    from Cons.prems(1) have k: "k' = k" and keys: "map fst xs = map fst ys" by (simp_all add: x y)
    have v: "v' = v" using fun_cong[OF Cons.prems(3), of k] by (simp add: x y k)
    from Cons.prems(2) have nk: "k \<notin> fst ` set xs" and d: "distinct (map fst xs)" by (simp_all add: x)
    have nk': "k \<notin> fst ` set ys" using nk keys by (metis set_map)
    have "map_of xs z = map_of ys z" for z
    proof (cases "z = k")
      case True
      then show ?thesis using nk nk' by (simp add: map_of_eq_None_iff[THEN iffD2])
    next
      case False
      then show ?thesis using fun_cong[OF Cons.prems(3), of z] by (simp add: x y k)
    qed
    then have "map_of xs = map_of ys" by (simp add: fun_eq_iff)
    then have "xs = ys" using Cons.IH keys d by simp
    then show ?case by (simp add: x y k v)
  qed
qed

lemma dict_update_zip:
  assumes "distinct cols" and "length r = length cols" and "d = [] \<or> map fst d = cols"
  shows "dict_update d (zip cols r) = zip cols r"
proof -
  have k: "map fst (zip cols r) = cols" using assms(2) by simp
  have dz: "distinct (map fst (zip cols r))" using assms(1) k by simp
  show ?thesis
  proof (cases "d = []")
    case True
    then show ?thesis using dict_update_empty[OF dz] by simp
  next
    case False
    then have kd: "map fst d = cols" using assms(3) by simp
    have 1: "map fst (dict_update d (zip cols r)) = map fst (zip cols r)"
      using dict_update_keys_subset[of "zip cols r" d] k kd by simp
    have "dom (map_of d) = dom (map_of (zip cols r))"
      using kd k by (metis dom_map_of_conv_image_fst set_map)
    then have 2: "map_of (dict_update d (zip cols r)) = map_of (zip cols r)"
      unfolding map_of_dict_update[OF dz]
      by (auto simp: fun_eq_iff map_add_def split: option.splits)
    show ?thesis by (rule alist_eqI[OF 1 _ 2]) (simp add: 1 dz)
  qed
qed

lemma for_rows_snoc:
  "for_rows f (xs @ [x]) s = (case for_rows f xs s of Inl e \<Rightarrow> Inl e | Inr s' \<Rightarrow> f x s')"
  by (induction xs arbitrary: s) (auto split: sum.splits)

lemma for_rows_append:
  "for_rows f (xs @ ys) s = (case for_rows f xs s of Inl e \<Rightarrow> Inl e | Inr s' \<Rightarrow> for_rows f ys s')"
  by (induction xs arbitrary: s) (auto split: sum.splits)

lemma first_free_key_fresh: "VInt (first_free_key ks k) \<notin> set ks"
  by (induction ks k rule: first_free_key.induct) (subst first_free_key.simps, simp)

lemma new_edge_key_fresh:
  "new_edge_key g u v \<notin> set (map fst (dict_get (adj_nbrs g u) v []))"
proof (cases "adj_get g u v")
  case None
  then show ?thesis by (simp add: adj_get_def dict_get_def)
next
  case (Some kd)
  then show ?thesis
    using first_free_key_fresh[of "map fst kd" "int (length kd)"]
    by (simp add: new_edge_key_def adj_get_def adj_nbrs_def dict_get_def dict_keys_def)
qed

section \<open>The loop over the node rows\<close>

lemma row_get_value:
  "row_get (row_to_dict cols r) c = Inr n \<Longrightarrow> n = row_value cols r c"
  by (auto simp: row_get_def row_value_def dict_get_def split: option.splits)

lemma row_get_ok:
  assumes "c \<in> set cols" and "length r = length cols"
  shows "row_get (row_to_dict cols r) c = Inr (row_value cols r c)"
proof -
  have "c \<in> fst ` set (zip cols r)" using assms by (metis map_fst_zip set_map)
  then obtain v where "map_of (zip cols r) c = Some v"
    by (cases "map_of (zip cols r) c") (auto simp: map_of_eq_None_iff)
  then show ?thesis by (simp add: row_get_def row_value_def dict_get_def row_to_dict_def)
qed

lemma last_row_where_snoc:
  "last_row_where P (rs @ [r]) = (if P r then Some r else last_row_where P rs)"
  by (simp add: last_row_where_def)

lemma last_row_where_Nil [simp]: "last_row_where P [] = None"
  by (simp add: last_row_where_def)

lemma last_row_where_Some:
  "last_row_where P rs = Some r \<Longrightarrow> r \<in> set rs \<and> P r"
proof -
  assume "last_row_where P rs = Some r"
  then obtain i where "i < length (rev rs)" "P (rev rs ! i)" "r = rev rs ! i"
    by (auto simp: last_row_where_def find_Some_iff)
  then show ?thesis by (metis nth_mem set_rev)
qed

lemma last_row_where_None: "last_row_where P rs = None \<longleftrightarrow> (\<forall>r\<in>set rs. \<not> P r)"
  by (auto simp: last_row_where_def find_None_iff)

lemma add_node_step:
  assumes an: "add_node g n attr = Inr g'" and wf: "wf_graph g" and em: "\<And>u. adj_nbrs g u = []"
  shows "wf_graph g'" and "nx_class g' = nx_class g" and "\<And>u. adj_nbrs g' u = []"
    and "nx_node g' = AList.update n (dict_update (dict_get (nx_node g) n []) attr) (nx_node g)"
    and "n \<noteq> VNull \<or> n \<in> set (map fst (nx_node g))"
proof -
  have k: "map fst (nx_adj g) = map fst (nx_node g)" using wf by (simp add: wf_graph_def)
  have d: "distinct (map fst (nx_node g))" using wf by (simp add: wf_graph_def)
  show nd: "nx_node g' = AList.update n (dict_update (dict_get (nx_node g) n []) attr) (nx_node g)"
  proof (cases "n \<in> set (map fst (nx_node g))")
    case True
    then show ?thesis using an by (auto simp: add_node_def dict_keys_def split: if_splits)
  next
    case False
    then have "dict_get (nx_node g) n [] = []" by (simp add: dict_get_notin)
    then show ?thesis using an False by (auto simp: add_node_def dict_keys_def split: if_splits)
  qed
  show cl: "nx_class g' = nx_class g"
    using an by (auto simp: add_node_def split: if_splits)
  have adj: "nx_adj g' = (if n \<in> set (map fst (nx_node g)) then nx_adj g else AList.update n [] (nx_adj g))"
    using an by (auto simp: add_node_def dict_keys_def split: if_splits)
  show em': "adj_nbrs g' u = []" for u
    using em[of u] by (auto simp: adj_nbrs_def adj dict_get_update)
  show "n \<noteq> VNull \<or> n \<in> set (map fst (nx_node g))"
    using an by (cases "n \<in> set (map fst (nx_node g))")
      (simp_all add: add_node_def dict_keys_def split: if_splits)
  have k': "map fst (nx_adj g') = map fst (nx_node g')"
    using k by (auto simp: adj nd update_keys)
  show "wf_graph g'"
    using d k' em' by (auto simp: wf_graph_def nd adj_get_def intro: distinct_update)
qed

lemma node_phase:
  assumes dc: "distinct cols" and len: "\<And>r. r \<in> set rs \<Longrightarrow> length r = length cols"
    and ok: "for_rows (add_node_row nid cols) rs (empty_graph c) = Inr g"
  shows "wf_graph g \<and> nx_class g = c \<and> (\<forall>u. adj_nbrs g u = []) \<and>
     map fst (nx_node g) = first_seen (map (\<lambda>r. row_value cols r nid) rs) \<and>
     (\<forall>n. map_of (nx_node g) n =
        map_option (row_to_dict cols) (last_row_where (\<lambda>r. row_value cols r nid = n) rs)) \<and>
     VNull \<notin> set (map (\<lambda>r. row_value cols r nid) rs)"
  using len ok
proof (induction rs arbitrary: g rule: rev_induct)
  case Nil
  then have "g = empty_graph c" by simp
  moreover have "adj_nbrs (empty_graph c) u = []" for u
    by (simp add: empty_graph_def adj_nbrs_def)
  moreover have "nx_node (empty_graph c) = []" "nx_class (empty_graph c) = c"
    by (simp_all add: empty_graph_def)
  ultimately show ?case by simp
next
  case (snoc r rs)
  from snoc.prems(2) obtain g1 where g1: "for_rows (add_node_row nid cols) rs (empty_graph c) = Inr g1"
    and st: "add_node_row nid cols r g1 = Inr g"
    by (auto simp: for_rows_snoc split: sum.splits)
  have ih: "wf_graph g1 \<and> nx_class g1 = c \<and> (\<forall>u. adj_nbrs g1 u = []) \<and>
     map fst (nx_node g1) = first_seen (map (\<lambda>r. row_value cols r nid) rs) \<and>
     (\<forall>n. map_of (nx_node g1) n =
        map_option (row_to_dict cols) (last_row_where (\<lambda>r. row_value cols r nid = n) rs)) \<and>
     VNull \<notin> set (map (\<lambda>r. row_value cols r nid) rs)"
    by (rule snoc.IH[OF _ g1]) (simp add: snoc.prems(1))
  define n where "n = row_value cols r nid"
  have lr: "length r = length cols" using snoc.prems(1) by simp
  from st have an: "add_node g1 n (row_to_dict cols r) = Inr g"
    by (auto simp: add_node_row_def Let_def call_add_node_def n_def
        split: sum.splits if_splits dest: row_get_value)
  note s = add_node_step[OF an]
  have wf1: "wf_graph g1" and em1: "\<And>u. adj_nbrs g1 u = []" using ih by simp_all
  have old: "dict_get (nx_node g1) n [] = [] \<or> map fst (dict_get (nx_node g1) n []) = cols"
  proof (cases "map_of (nx_node g1) n")
    case None
    then show ?thesis by (simp add: dict_get_def)
  next
    case (Some a)
    then obtain r' where "a = row_to_dict cols r'" and "r' \<in> set rs" using ih
      by (auto dest: last_row_where_Some)
    then have "map fst a = cols" using snoc.prems(1)[of r'] by (simp add: row_to_dict_def)
    then show ?thesis using Some by (simp add: dict_get_def)
  qed
  have du: "dict_update (dict_get (nx_node g1) n []) (row_to_dict cols r) = row_to_dict cols r"
    unfolding row_to_dict_def by (rule dict_update_zip[OF dc lr old])
  have nd: "nx_node g = AList.update n (row_to_dict cols r) (nx_node g1)"
    using s(4)[OF wf1 em1] du by simp
  have keys: "map fst (nx_node g) = first_seen (map (\<lambda>r. row_value cols r nid) (rs @ [r]))"
    using ih by (simp add: nd update_keys first_seen_snoc n_def)
  have mo: "map_of (nx_node g) m =
        map_option (row_to_dict cols) (last_row_where (\<lambda>r. row_value cols r nid = m) (rs @ [r]))" for m
    using ih by (simp add: nd update_conv' last_row_where_snoc n_def)
  have nn: "n \<noteq> VNull"
  proof
    assume "n = VNull"
    then have "VNull \<in> set (map fst (nx_node g1))" using s(5)[OF wf1 em1] by simp
    then show False using ih by simp
  qed
  show ?case
    using s(1,2,3)[OF wf1 em1] ih keys mo nn by (simp add: n_def)
qed

section \<open>The loop over the edge rows\<close>

lemma same_edge_iff: "same_edge d p q \<longleftrightarrow> edge_id d p = edge_id d q"
  by (cases p; cases q) (auto simp: same_edge_def edge_id_def min_def max_def split: if_splits)

lemma same_edge_refl [simp]: "same_edge d p p"
  by (simp add: same_edge_def)

lemma same_edge_swap: "\<not> d \<Longrightarrow> same_edge d (u, v) q \<longleftrightarrow> same_edge d (v, u) q"
  by (cases q) (auto simp: same_edge_def)

lemma row_value_key_absent:
  "c \<notin> set cols \<Longrightarrow> map_of (row_to_dict cols r) c = None"
  by (auto simp: row_to_dict_def map_of_eq_None_iff dest: set_zip_leftD)

lemma filter_key_absent:
  "c \<notin> set cols \<Longrightarrow> filter (\<lambda>kv. fst kv \<noteq> c) (row_to_dict cols r) = row_to_dict cols r"
  by (auto simp: row_to_dict_def filter_id_conv dest: set_zip_leftD)

lemma add_edge_row_step:
  assumes "add_edge_row s t cols r g = Inr g'"
    and "is_multigraph (nx_class g) \<longrightarrow> ''key'' \<notin> set cols"
  shows "add_edge g (fst (row_ends cols s t r)) (snd (row_ends cols s t r)) None
           (row_to_dict cols r) = Inr g'"
proof -
  from assms(1) obtain u v where u: "row_get (row_to_dict cols r) s = Inr u"
    and v: "row_get (row_to_dict cols r) t = Inr v"
    and c: "call_add_edge g u v (row_to_dict cols r) = Inr g'"
    by (auto simp: add_edge_row_def Let_def split: sum.splits)
  have e: "row_ends cols s t r = (u, v)"
    using row_get_value[OF u] row_get_value[OF v] by (simp add: row_ends_def)
  show ?thesis
  proof (cases "is_multigraph (nx_class g)")
    case True
    then have k: "''key'' \<notin> set cols" using assms(2) by simp
    show ?thesis
      using c True row_value_key_absent[OF k, of r] filter_key_absent[OF k, of r]
      by (simp add: call_add_edge_def e split: if_splits)
  next
    case False
    then show ?thesis using c by (simp add: call_add_edge_def e split: if_splits)
  qed
qed

lemma add_edge_row_some:
  assumes "add_edge_row s t cols r g = Inr g'"
  shows "\<exists>key attr. add_edge g (fst (row_ends cols s t r)) (snd (row_ends cols s t r)) key attr = Inr g'"
proof -
  from assms(1) obtain u v where u: "row_get (row_to_dict cols r) s = Inr u"
    and v: "row_get (row_to_dict cols r) t = Inr v"
    and c: "call_add_edge g u v (row_to_dict cols r) = Inr g'"
    by (auto simp: add_edge_row_def Let_def split: sum.splits)
  have e: "row_ends cols s t r = (u, v)"
    using row_get_value[OF u] row_get_value[OF v] by (simp add: row_ends_def)
  show ?thesis
    using c by (auto simp: call_add_edge_def e split: if_splits)
qed

text \<open>What the loop over the edge rows keeps of the graph it starts from.\<close>

lemma edge_phase_basic:
  assumes wf: "wf_graph g0"
    and ok: "for_rows (add_edge_row s t cols) rs g0 = Inr g"
  shows "wf_graph g \<and> nx_class g = nx_class g0 \<and>
     map fst (nx_node g) = first_seen (map fst (nx_node g0) @
        concat (map (\<lambda>r. [fst (row_ends cols s t r), snd (row_ends cols s t r)]) rs)) \<and>
     (\<forall>m. m \<in> set (map fst (nx_node g0)) \<longrightarrow> map_of (nx_node g) m = map_of (nx_node g0) m) \<and>
     (\<forall>m. m \<in> set (map fst (nx_node g)) \<and> m \<notin> set (map fst (nx_node g0)) \<longrightarrow>
          map_of (nx_node g) m = Some [])"
  using ok
proof (induction rs arbitrary: g rule: rev_induct)
  case Nil
  then have "g = g0" by simp
  then show ?case using wf by (simp add: first_seen_distinct_id wf_graph_def)
next
  case (snoc r rs)
  from snoc.prems obtain g1 where g1: "for_rows (add_edge_row s t cols) rs g0 = Inr g1"
    and st: "add_edge_row s t cols r g1 = Inr g"
    by (auto simp: for_rows_snoc split: sum.splits)
  note ih = snoc.IH[OF g1]
  define a where "a = fst (row_ends cols s t r)"
  define b where "b = snd (row_ends cols s t r)"
  obtain key attr where ae: "add_edge g1 a b key attr = Inr g"
    unfolding a_def b_def using add_edge_row_some[OF st] by blast
  have wf1: "wf_graph g1" using ih by simp
  note p = add_edge_props[OF ae wf1]
  let ?K0 = "map fst (nx_node g0)" and ?K1 = "map fst (nx_node g1)"
  let ?ends = "\<lambda>rs. concat (map (\<lambda>r. [fst (row_ends cols s t r), snd (row_ends cols s t r)]) rs)"
  have K1: "?K1 = first_seen (?K0 @ ?ends rs)" using ih by simp
  have e: "?ends (rs @ [r]) = ?ends rs @ [a, b]" by (simp add: a_def b_def)
  have fs2: "first_seen (xs @ [a, b]) =
      first_seen xs @ filter (\<lambda>n. n \<notin> set (first_seen xs)) (if a = b then [a] else [a, b])" for xs
    using first_seen_snoc[of xs a] first_seen_snoc[of "xs @ [a]" b] by auto
  have keys: "map fst (nx_node g) = first_seen (?K0 @ ?ends (rs @ [r]))"
    using fs2[of "?K0 @ ?ends rs"] by (simp only: p(4) K1 e append_assoc)
  have sub: "set ?K0 \<subseteq> set ?K1" by (simp add: K1)
  have ih_old: "map_of (nx_node g1) m = map_of (nx_node g0) m" if "m \<in> set ?K0" for m
    using ih that by blast
  have ih_new: "map_of (nx_node g1) m = Some []" if "m \<in> set ?K1" "m \<notin> set ?K0" for m
    using ih that by blast
  have old: "map_of (nx_node g) m = map_of (nx_node g0) m" if "m \<in> set ?K0" for m
  proof -
    have "m \<in> set ?K1" using that sub by blast
    then show ?thesis using p(5)[of m] ih_old[OF that] by simp
  qed
  have new: "map_of (nx_node g) m = Some []"
    if "m \<in> set (map fst (nx_node g))" "m \<notin> set ?K0" for m
  proof (cases "m \<in> set ?K1")
    case True
    then show ?thesis using p(5)[OF True] ih_new[OF True that(2)] by simp
  next
    case False
    then show ?thesis using p(6)[OF that(1) False] by simp
  qed
  have cl: "nx_class g = nx_class g0" using p(2) ih by simp
  show ?case using p(1) cl keys old new by blast
qed

section \<open>The adjacency after the loop over the edge rows\<close>

lemma set_update_subset: "set (AList.update k v al) \<subseteq> insert (k, v) (set al)"
  by (induction al) auto

lemma update_mem: "(k, v) \<in> set (AList.update k v al)"
  by (induction al) auto

lemma dict_get_mem:
  "map_of d k = Some v \<Longrightarrow> (k, v) \<in> set d"
  by (rule map_of_SomeD)

lemma adj_nbrs_get:
  "dict_get (adj_nbrs g a) b [] = (case adj_get g a b of None \<Rightarrow> [] | Some x \<Rightarrow> x)"
  by (simp add: adj_get_def dict_get_def)

lemma edge_phase_content:
  assumes wf: "wf_graph g0" and em: "\<And>u. adj_nbrs g0 u = []"
    and key: "is_multigraph (nx_class g0) \<longrightarrow> ''key'' \<notin> set cols"
    and dc: "distinct cols" and len: "\<And>r. r \<in> set rs \<Longrightarrow> length r = length cols"
    and ok: "for_rows (add_edge_row s t cols) rs g0 = Inr g"
  shows "(\<forall>u v kd. adj_get g u v = Some kd \<longrightarrow> kd \<noteq> [] \<and>
            (\<forall>k dd. (k, dd) \<in> set kd \<longrightarrow>
               (\<exists>r\<in>set rs. dd = row_to_dict cols r \<and>
                  same_edge (is_directed (nx_class g0)) (u, v) (row_ends cols s t r)))) \<and>
     (\<not> is_multigraph (nx_class g0) \<longrightarrow>
        (\<forall>u v. adj_get g u v = map_option (\<lambda>r. [(VInt 0, row_to_dict cols r)])
           (last_row_where (\<lambda>r. same_edge (is_directed (nx_class g0)) (u, v) (row_ends cols s t r)) rs))) \<and>
     (is_multigraph (nx_class g0) \<longrightarrow>
        (\<forall>r\<in>set rs. \<exists>kd k. adj_get g (fst (row_ends cols s t r)) (snd (row_ends cols s t r)) = Some kd \<and>
            (k, row_to_dict cols r) \<in> set kd)) \<and>
     number_of_edges g =
       (if is_multigraph (nx_class g0) then length rs
        else card (edge_id (is_directed (nx_class g0)) ` set (map (row_ends cols s t) rs)))"
  using len ok
proof (induction rs arbitrary: g rule: rev_induct)
  case Nil
  then have g: "g = g0" by simp
  have "adj_get g0 u v = None" for u v by (simp add: adj_get_def em)
  then have "edge_set g0 = {}" by (simp add: edge_set_def)
  then have "number_of_edges g0 = 0" using edges_of_wf_graph(3)[OF wf] by simp
  then show ?case using \<open>\<And>u v. adj_get g0 u v = None\<close> by (simp add: g)
next
  case (snoc r rs)
  define D where "D = is_directed (nx_class g0)"
  define M where "M = is_multigraph (nx_class g0)"
  define ends where "ends = row_ends cols s t"
  from snoc.prems(2) obtain g1 where g1: "for_rows (add_edge_row s t cols) rs g0 = Inr g1"
    and st: "add_edge_row s t cols r g1 = Inr g"
    by (auto simp: for_rows_snoc split: sum.splits)
  have len': "\<And>r. r \<in> set rs \<Longrightarrow> length r = length cols" using snoc.prems(1) by simp
  have lr: "length r = length cols" using snoc.prems(1) by simp
  note ih = snoc.IH[OF len' g1, folded D_def M_def ends_def]
  have ih_d: "kd \<noteq> [] \<and> (\<forall>k dd. (k, dd) \<in> set kd \<longrightarrow>
               (\<exists>r\<in>set rs. dd = row_to_dict cols r \<and> same_edge D (u, v) (ends r)))"
    if "adj_get g1 u v = Some kd" for u v kd using ih that by blast
  have ih_f: "adj_get g1 u v = map_option (\<lambda>r. [(VInt 0, row_to_dict cols r)])
           (last_row_where (\<lambda>r. same_edge D (u, v) (ends r)) rs)" if "\<not> M" for u v
    using ih that by blast
  have ih_g: "\<exists>kd k. adj_get g1 (fst (ends r')) (snd (ends r')) = Some kd \<and>
            (k, row_to_dict cols r') \<in> set kd" if "M" "r' \<in> set rs" for r'
    using ih that by blast
  have ih_h: "number_of_edges g1 = (if M then length rs else card (edge_id D ` set (map ends rs)))"
    using ih by blast
  note b1 = edge_phase_basic[OF wf g1]
  have wf1: "wf_graph g1" and cl1: "nx_class g1 = nx_class g0" using b1 by simp_all
  define a where "a = fst (ends r)"
  define b where "b = snd (ends r)"
  have ab: "ends r = (a, b)" by (simp add: a_def b_def)
  define row where "row = row_to_dict cols r"
  have ae: "add_edge g1 a b None row = Inr g"
    unfolding a_def b_def row_def ends_def
    by (rule add_edge_row_step[OF st]) (use cl1 key in simp)
  note p = add_edge_props[OF ae wf1]
  define kd0 where "kd0 = dict_get (adj_nbrs g1 a) b []"
  define k where "k = edge_key g1 a b None"
  have kd0: "kd0 = (case adj_get g1 a b of None \<Rightarrow> [] | Some x \<Rightarrow> x)"
    by (simp add: kd0_def adj_nbrs_get)
  have kd0_some: "adj_get g1 a b = Some kd0" if "kd0 \<noteq> []"
    using that by (cases "adj_get g1 a b") (simp_all add: kd0)
  have old: "dict_get kd0 k [] = [] \<or> map fst (dict_get kd0 k []) = cols"
  proof (cases "map_of kd0 k")
    case None
    then show ?thesis by (simp add: dict_get_def)
  next
    case (Some dd)
    then have m: "(k, dd) \<in> set kd0" by (rule map_of_SomeD)
    then have "kd0 \<noteq> []" by auto
    from ih_d[OF kd0_some[OF this]] m obtain r' where "r' \<in> set rs" "dd = row_to_dict cols r'"
      by blast
    then have "map fst dd = cols" using len'[of r'] by (simp add: row_to_dict_def)
    then show ?thesis using Some by (simp add: dict_get_def)
  qed
  have du: "dict_update (dict_get kd0 k []) row = row"
    unfolding row_def row_to_dict_def by (rule dict_update_zip[OF dc lr old])
  define kd' where "kd' = AList.update k row kd0"
  have uk: "updated_keydict g1 a b None row = kd'"
    by (simp add: updated_keydict_def Let_def kd'_def du flip: kd0_def k_def)
  have ag: "adj_get g u v = (if same_edge D (u, v) (a, b) then Some kd' else adj_get g1 u v)" for u v
    by (simp add: p(3) uk same_edge_def D_def cl1)
  have sym1: "adj_get g1 v u = adj_get g1 u v" if "\<not> D" for u v
    using wf1 that by (simp add: wf_graph_def D_def cl1)
  have same_ab: "adj_get g1 u v = adj_get g1 a b" if "same_edge D (u, v) (a, b)" for u v
    using that sym1 by (auto simp: same_edge_def)
  have trans: "same_edge D p (ends r')" if "same_edge D p (a, b)" "same_edge D (a, b) (ends r')" for p r'
    using that by (simp add: same_edge_iff)
  text \<open>every stored dictionary is a row's\<close>
  have d: "kd \<noteq> [] \<and> (\<forall>k dd. (k, dd) \<in> set kd \<longrightarrow>
               (\<exists>r\<in>set (rs @ [r]). dd = row_to_dict cols r \<and> same_edge D (u, v) (ends r)))"
    if h: "adj_get g u v = Some kd" for u v kd
  proof (cases "same_edge D (u, v) (a, b)")
    case True
    then have kd: "kd = kd'" using h by (simp add: ag)
    have "\<exists>r'\<in>set (rs @ [r]). dd = row_to_dict cols r' \<and> same_edge D (u, v) (ends r')"
      if m: "(k', dd) \<in> set kd'" for k' dd
    proof (cases "(k', dd) = (k, row)")
      case True
      then show ?thesis using \<open>same_edge D (u, v) (a, b)\<close> by (auto simp: row_def ab)
    next
      case False
      then have m0: "(k', dd) \<in> set kd0" using m set_update_subset[of k row kd0] by (auto simp: kd'_def)
      then have "kd0 \<noteq> []" by auto
      from ih_d[OF kd0_some[OF this]] m0 obtain r' where "r' \<in> set rs" "dd = row_to_dict cols r'"
        "same_edge D (a, b) (ends r')" by blast
      then show ?thesis using trans[OF \<open>same_edge D (u, v) (a, b)\<close>] by auto
    qed
    then show ?thesis by (auto simp: kd kd'_def)
  next
    case False
    then have "adj_get g1 u v = Some kd" using h by (simp add: ag)
    from ih_d[OF this] show ?thesis by auto
  qed
  text \<open>the simple classes: last write wins\<close>
  have f: "adj_get g u v = map_option (\<lambda>r. [(VInt 0, row_to_dict cols r)])
           (last_row_where (\<lambda>r. same_edge D (u, v) (ends r)) (rs @ [r]))" if nm: "\<not> M" for u v
  proof -
    have k0: "k = VInt 0" using nm by (simp add: k_def edge_key_def M_def cl1)
    have "kd0 = [] \<or> (\<exists>dd. kd0 = [(VInt 0, dd)])"
      using ih_f[OF nm, of a b]
      by (cases "last_row_where (\<lambda>r. same_edge D (a, b) (ends r)) rs") (simp_all add: kd0)
    then have "kd' = [(VInt 0, row)]" by (auto simp: kd'_def k0)
    then show ?thesis using ih_f[OF nm, of u v]
      by (simp add: ag last_row_where_snoc ab row_def)
  qed
  text \<open>the multigraph classes: every row keeps its entry\<close>
  have fresh: "k \<notin> set (map fst kd0)" if "M"
    using that new_edge_key_fresh[of g1 a b] by (simp add: k_def edge_key_def M_def cl1 kd0_def)
  have g: "\<exists>kd k. adj_get g (fst (ends r')) (snd (ends r')) = Some kd \<and>
            (k, row_to_dict cols r') \<in> set kd" if m: "M" and r': "r' \<in> set (rs @ [r])" for r'
  proof (cases "r' = r")
    case True
    have "adj_get g a b = Some kd'" by (simp add: ag)
    moreover have "(k, row) \<in> set kd'" by (simp add: kd'_def update_mem)
    ultimately show ?thesis using True by (auto simp: a_def b_def row_def)
  next
    case False
    then have "r' \<in> set rs" using r' by simp
    from ih_g[OF m this] obtain kd1 k1 where
      1: "adj_get g1 (fst (ends r')) (snd (ends r')) = Some kd1" and 2: "(k1, row_to_dict cols r') \<in> set kd1"
      by blast
    show ?thesis
    proof (cases "same_edge D (fst (ends r'), snd (ends r')) (a, b)")
      case True
      then have "adj_get g1 a b = Some kd1" using same_ab[OF True] 1 by simp
      then have "kd0 = kd1" by (simp add: kd0)
      then have "set kd1 \<subseteq> set kd'" using fresh[OF m] by (auto simp: kd'_def update_absent)
      then show ?thesis using True 2 by (auto simp: ag)
    next
      case False
      then show ?thesis using 1 2 by (auto simp: ag)
    qed
  qed
  text \<open>the number of edges\<close>
  have cnt: "number_of_edges g = number_of_edges g1 + (if k \<in> set (map fst kd0) then 0 else 1)"
    using add_edge_count[OF ae wf1] by (simp add: k_def kd0_def)
  have h: "number_of_edges g = (if M then length (rs @ [r])
       else card (edge_id D ` set (map ends (rs @ [r]))))"
  proof (cases M)
    case True
    then show ?thesis using cnt fresh ih_h by simp
  next
    case False
    have k0: "k = VInt 0" using False by (simp add: k_def edge_key_def M_def cl1)
    let ?S = "edge_id D ` set (map ends rs)"
    have "k \<in> set (map fst kd0) \<longleftrightarrow> edge_id D (a, b) \<in> ?S"
    proof -
      have "k \<in> set (map fst kd0) \<longleftrightarrow> adj_get g1 a b \<noteq> None"
        using ih_f[OF False, of a b]
        by (cases "last_row_where (\<lambda>r. same_edge D (a, b) (ends r)) rs") (simp_all add: kd0 k0)
      also have "\<dots> \<longleftrightarrow> (\<exists>r'\<in>set rs. same_edge D (a, b) (ends r'))"
        using ih_f[OF False, of a b] by (auto simp: last_row_where_None)
      also have "\<dots> \<longleftrightarrow> edge_id D (a, b) \<in> ?S"
        by (auto simp: same_edge_iff)
      finally show ?thesis .
    qed
    moreover have "card (edge_id D ` set (map ends (rs @ [r]))) =
        card ?S + (if edge_id D (a, b) \<in> ?S then 0 else 1)"
      by (simp add: ab insert_absorb)
    ultimately show ?thesis using cnt ih_h False by simp
  qed
  show ?case
    unfolding D_def[symmetric] M_def[symmetric] ends_def[symmetric]
    using d f g h by blast
qed

section \<open>From the tabular graph to the graph object\<close>

lemma valid_table_rows:
  "valid_table t \<Longrightarrow> r \<in> set (rows t) \<Longrightarrow> length r = length (column_names t)"
  by (simp add: valid_table_def list_all_iff)

lemma valid_table_distinct: "valid_table t \<Longrightarrow> distinct (column_names t)"
  by (simp add: valid_table_def)

lemma class_of_graph_type_cases:
  assumes "class_of_graph_type gt = Inr cls"
  shows "(gt = ''directed'' \<and> cls = DiGraph) \<or> (gt = ''undirected'' \<and> cls = Graph) \<or>
         (gt = ''directed_multi'' \<and> cls = MultiDiGraph) \<or>
         (gt = ''undirected_multi'' \<and> cls = MultiGraph)"
  using assms by (auto simp: class_of_graph_type_def split: if_splits)

lemma as_networkx_graph_unfold:
  assumes "as_networkx_graph T = Inr g" and "nodes T = Inr nt" and "edges T = Inr et"
  obtains cls g1 where "class_of_graph_type (graph_type T) = Inr cls"
    and "for_rows (add_node_row (node_id_column_name T) (column_names nt)) (rows nt)
           (empty_graph cls) = Inr g1"
    and "for_rows (add_edge_row (source_column_name T) (target_column_name T) (column_names et))
           (rows et) g1 = Inr g"
  using assms by (auto simp: as_networkx_graph_def split: sum.splits)

lemma select_column_row_value:
  "select_column t c = map (\<lambda>r. row_value (column_names t) r c) (rows t)"
  by (simp add: select_column_def row_value_def dict_get_def row_to_dict_def)

lemma card_image_list:
  "card (f ` set xs) \<le> length xs" "\<not> distinct (map f xs) \<Longrightarrow> card (f ` set xs) < length xs"
proof -
  have c: "card (set (map f xs)) \<le> length (map f xs)" by (rule card_length)
  then show "card (f ` set xs) \<le> length xs" by simp
  assume nd: "\<not> distinct (map f xs)"
  have "card (set (map f xs)) \<noteq> length (map f xs)" using nd card_distinct by blast
  with c show "card (f ` set xs) < length xs" by simp
qed

lemma first_seen_length: "length (first_seen xs) = card (set xs)"
  using distinct_card[OF first_seen_distinct, of xs] by simp

lemma for_rows_each:
  "for_rows f rs s = Inr g \<Longrightarrow> r \<in> set rs \<Longrightarrow> \<exists>s1 s2. f r s1 = Inr s2"
  by (induction rs arbitrary: s) (auto split: sum.splits)

lemma row_to_dict_keys: "length r = length cols \<Longrightarrow> dict_keys (row_to_dict cols r) = cols"
  by (simp add: dict_keys_def row_to_dict_def)

lemma row_get_in_cols: "row_get (row_to_dict cols r) c = Inr n \<Longrightarrow> c \<in> set cols"
  by (auto simp: row_get_def row_to_dict_def split: option.splits dest!: map_of_SomeD set_zip_leftD)

lemma last_row_where_exists:
  assumes "r \<in> set rs" and "P r"
  obtains r' where "last_row_where P rs = Some r'" and "r' \<in> set rs" and "P r'"
proof -
  have "last_row_where P rs \<noteq> None" using assms by (auto simp: last_row_where_None)
  then obtain r' where "last_row_where P rs = Some r'" by auto
  with last_row_where_Some[OF this] show ?thesis by (auto intro: that)
qed

lemma add_node_row_get:
  "add_node_row nid cols r g = Inr g' \<Longrightarrow> \<exists>n. row_get (row_to_dict cols r) nid = Inr n"
  by (cases "row_get (row_to_dict cols r) nid") (simp_all add: add_node_row_def)

lemma add_edge_row_get:
  assumes "add_edge_row s t cols r g = Inr g'"
  shows "\<exists>u v. row_get (row_to_dict cols r) s = Inr u \<and> row_get (row_to_dict cols r) t = Inr v"
  using assms
  by (cases "row_get (row_to_dict cols r) s"; cases "row_get (row_to_dict cols r) t")
    (simp_all add: add_edge_row_def)

lemma example_tabular_created:
  "create_from_tables gt example_edges None ''source'' ''target'' ''id'' = Inr (example_tabular gt)"
proof -
  have "''source'' \<in> set (column_names example_edges)"
    "''target'' \<in> set (column_names example_edges)"
    by (simp_all add: example_edges_def)
  from create_from_tables_inferred_ok[OF this] show ?thesis
    by (simp add: example_tabular_def)
qed

lemma example_tabular_tables:
  "edges (example_tabular gt) = Inr example_edges"
  "nodes (example_tabular gt) =
     Inr \<lparr>column_names = [''id''], rows = [[VStr ''A''], [VStr ''B''], [VStr ''C'']]\<rparr>"
  "valid_table example_edges"
  "valid_table \<lparr>column_names = [''id''], rows = [[VStr ''A''], [VStr ''B''], [VStr ''C'']]\<rparr>"
proof -
  show "edges (example_tabular gt) = Inr example_edges"
    by (rule edges_of_created[OF example_tabular_created])
  have "infer_nodes_query example_edges ''source'' ''target'' ''id'' =
      \<lparr>column_names = [''id''], rows = [[VStr ''A''], [VStr ''B''], [VStr ''C'']]\<rparr>"
    by code_simp
  then show "nodes (example_tabular gt) =
     Inr \<lparr>column_names = [''id''], rows = [[VStr ''A''], [VStr ''B''], [VStr ''C'']]\<rparr>"
    using nodes_of_created_inferred[OF example_tabular_created, of gt] by simp
  show "valid_table example_edges" by (simp add: valid_table_def example_edges_def)
  show "valid_table \<lparr>column_names = [''id''], rows = [[VStr ''A''], [VStr ''B''], [VStr ''C'']]\<rparr>"
    by (simp add: valid_table_def)
qed

section \<open>Claims about \<open>create_from_tables\<close>\<close>







section \<open>Claims about classification and the query surface\<close>

text \<open>
  Claim C5. \<open>create_from_networkx_graph\<close> classifies a graph object by its class: a
  \<open>MultiDiGraph\<close> is \<open>DIRECTED_MULTI\<close>, a \<open>MultiGraph\<close> \<open>UNDIRECTED_MULTI\<close>, a \<open>DiGraph\<close>
  \<open>DIRECTED\<close>, a \<open>Graph\<close> \<open>UNDIRECTED\<close>, and a tabular graph that the conversion returns
  has that type. An object of no graph class is refused with the exception
  \<open>Invalid graph type: ...\<close>.
\<close>

theorem graph_type_of_object_classifies:
  "graph_type_of_object (NxGraph g) =
     Inr (case nx_class g of
            MultiDiGraph \<Rightarrow> DIRECTED_MULTI
          | MultiGraph \<Rightarrow> UNDIRECTED_MULTI
          | DiGraph \<Rightarrow> DIRECTED
          | Graph \<Rightarrow> UNDIRECTED) \<and>
   graph_type_of_object (OtherObject ty) = Inl (KiaraException (''Invalid graph type: '' @ ty)) \<and>
   create_from_networkx_graph (OtherObject ty) s t i ts tt ao =
     Inl (KiaraException (''Invalid graph type: '' @ ty)) \<and>
   (create_from_networkx_graph (NxGraph g) s t i ts tt ao = Inr T \<longrightarrow>
      graph_type T = graph_type_value (case nx_class g of
            MultiDiGraph \<Rightarrow> DIRECTED_MULTI
          | MultiGraph \<Rightarrow> UNDIRECTED_MULTI
          | DiGraph \<Rightarrow> DIRECTED
          | Graph \<Rightarrow> UNDIRECTED))"
proof -
  have a: "graph_type_of_object (NxGraph g) =
     Inr (case nx_class g of
            MultiDiGraph \<Rightarrow> DIRECTED_MULTI
          | MultiGraph \<Rightarrow> UNDIRECTED_MULTI
          | DiGraph \<Rightarrow> DIRECTED
          | Graph \<Rightarrow> UNDIRECTED)"
    by (cases "nx_class g") (simp_all add: graph_type_of_object_def)
  have b: "graph_type_of_object (OtherObject ty) =
      Inl (KiaraException (''Invalid graph type: '' @ ty))"
    by (simp add: graph_type_of_object_def)
  have c: "create_from_networkx_graph (OtherObject ty) s t i ts tt ao =
     Inl (KiaraException (''Invalid graph type: '' @ ty))"
    by (simp add: create_from_networkx_graph_def b)
  have d: "graph_type T = graph_type_value (case nx_class g of
            MultiDiGraph \<Rightarrow> DIRECTED_MULTI
          | MultiGraph \<Rightarrow> UNDIRECTED_MULTI
          | DiGraph \<Rightarrow> DIRECTED
          | Graph \<Rightarrow> UNDIRECTED)"
    if "create_from_networkx_graph (NxGraph g) s t i ts tt ao = Inr T"
    using that unfolding create_from_networkx_graph_def a
    by (auto simp: create_from_tables_def Let_def split: sum.splits if_splits)
  show ?thesis using a b c d by blast
qed

theorem graph_type_of_object_classifies_witness:
  "create_from_networkx_graph (NxGraph example_multidigraph)
      ''source'' ''target'' ''id'' ''tmp-s'' ''tmp-t'' id =
    Inr \<lparr>graph_type = ''directed_multi'', source_column_name = ''source'',
         target_column_name = ''target'', node_id_column_name = ''id'',
         tables = [(''edges'', \<lparr>column_names = [''source'', ''target''], rows = [[VInt 1, VInt 2]]\<rparr>),
                   (''nodes'', \<lparr>column_names = [''id''], rows = [[VInt 1], [VInt 2]]\<rparr>)]\<rparr> \<and>
   graph_type_of_object (NxGraph example_multidigraph) = Inr DIRECTED_MULTI \<and>
   create_from_networkx_graph (OtherObject ''<class dict>'')
      ''source'' ''target'' ''id'' ''tmp-s'' ''tmp-t'' id =
    Inl (KiaraException ''Invalid graph type: <class dict>'')"
proof -
  have r: "create_from_networkx_graph (NxGraph example_multidigraph)
      ''source'' ''target'' ''id'' ''tmp-s'' ''tmp-t'' id =
    Inr \<lparr>graph_type = ''directed_multi'', source_column_name = ''source'',
         target_column_name = ''target'', node_id_column_name = ''id'',
         tables = [(''edges'', \<lparr>column_names = [''source'', ''target''], rows = [[VInt 1, VInt 2]]\<rparr>),
                   (''nodes'', \<lparr>column_names = [''id''], rows = [[VInt 1], [VInt 2]]\<rparr>)]\<rparr>"
    by code_simp
  have c: "nx_class example_multidigraph = MultiDiGraph"
    by (simp add: example_multidigraph_def)
  show ?thesis
    using r c graph_type_of_object_classifies[of example_multidigraph "''<class dict>''"
        "''source''" "''target''" "''id''" "''tmp-s''" "''tmp-t''" id]
    by simp
qed

text \<open>
  Claim C6. For a tabular graph that has its two tables, \<open>query\<close> hands the query text to
  the engine with the edges table bound to the name \<open>edges\<close> and the nodes table bound to
  the name \<open>nodes\<close>, and returns what the engine returns. With an engine that answers
  \<open>SELECT COUNT(*) FROM r\<close> by the number of rows of the table bound to \<open>r\<close>, the count over
  \<open>edges\<close> is \<open>num_edges\<close> and the count over \<open>nodes\<close> is \<open>num_nodes\<close>.
\<close>

theorem query_binds_tables_and_counts:
  assumes "edges T = Inr e" and "nodes T = Inr n"
  shows "query execute T q = execute q [(''edges'', e), (''nodes'', n)] \<and>
    num_edges T = Inr (num_rows e) \<and> num_nodes T = Inr (num_rows n) \<and>
    (counts_rows execute \<longrightarrow>
       query execute T ''SELECT COUNT(*) FROM edges'' = Inr (count_result (num_rows e)) \<and>
       query execute T ''SELECT COUNT(*) FROM nodes'' = Inr (count_result (num_rows n)))"
proof -
  have q: "query execute T q = execute q [(''edges'', e), (''nodes'', n)]" for q
    using assms by (simp add: query_def)
  have c: "query execute T ''SELECT COUNT(*) FROM edges'' = Inr (count_result (num_rows e)) \<and>
       query execute T ''SELECT COUNT(*) FROM nodes'' = Inr (count_result (num_rows n))"
    if h: "counts_rows execute"
  proof -
    let ?env = "[(''edges'', e), (''nodes'', n)]"
    have "map_of ?env ''edges'' = Some e" "map_of ?env ''nodes'' = Some n" by simp_all
    then have
      "execute (''SELECT COUNT(*) FROM '' @ ''edges'') ?env = Inr (count_result (num_rows e))"
      "execute (''SELECT COUNT(*) FROM '' @ ''nodes'') ?env = Inr (count_result (num_rows n))"
      using h unfolding counts_rows_def by blast+
    then show ?thesis by (simp add: q)
  qed
  show ?thesis using q c assms by (simp add: num_edges_def num_nodes_def)
qed

theorem query_binds_tables_and_counts_witness:
  "\<exists>T. create_from_tables DIRECTED_MULTI example_edges None ''source'' ''target'' ''id'' = Inr T \<and>
     counts_rows count_engine \<and>
     num_edges T = Inr 4 \<and> num_nodes T = Inr 3 \<and>
     query count_engine T ''SELECT COUNT(*) FROM edges'' = Inr (count_result 4) \<and>
     query count_engine T ''SELECT COUNT(*) FROM nodes'' = Inr (count_result 3)"
proof -
  have cols: "''source'' \<in> set (column_names example_edges)"
    "''target'' \<in> set (column_names example_edges)"
    by (simp_all add: example_edges_def)
  obtain T where T: "create_from_tables DIRECTED_MULTI example_edges None ''source'' ''target'' ''id'' = Inr T"
    using create_from_tables_inferred_ok[OF cols] by blast
  let ?n = "infer_nodes_query example_edges ''source'' ''target'' ''id''"
  have e: "edges T = Inr example_edges" by (rule edges_of_created[OF T])
  have n: "nodes T = Inr ?n" by (rule nodes_of_created_inferred[OF T])
  have ce: "counts_rows count_engine"
    by (simp add: counts_rows_def count_engine_def)
  have ne: "num_rows example_edges = 4" by (simp add: num_rows_def example_edges_def)
  have "rows ?n = [[VStr ''A''], [VStr ''B''], [VStr ''C'']]" by code_simp
  then have nn: "num_rows ?n = 3" by (simp add: num_rows_def)
  show ?thesis
    using query_binds_tables_and_counts[OF e n, of count_engine "''SELECT 1''"] T ce ne nn
    by auto
qed

section \<open>Claims about \<open>create_from_networkx_graph\<close>\<close>

text \<open>
  Claim C10, as amended. Let some node of the graph carry an attribute named like the node
  id column, let that name not be the reserved placeholder name, and let no node carry an
  attribute named \<open>index\<close>. Then a conversion that succeeds yields a nodes table whose
  columns are the attribute names of the nodes (without the placeholder) and whose rows,
  one per node, hold the attribute values: the extracted node identifiers are dropped,
  and the node id column holds the values of the attribute, null for a node without it.
\<close>

theorem nodes_table_keeps_id_attribute:
  assumes r: "create_from_networkx_graph (NxGraph g) s t i ts tt ao = Inr T"
    and i: "i \<in> set (node_attr_names g)" and ip: "i \<noteq> placeholder"
    and ix: "''index'' \<notin> set (node_attr_names g)"
  shows "\<exists>nt ns. nodes T = Inr nt \<and> distinct ns \<and> set ns = set (dict_keys (nx_node g)) \<and>
     column_names nt = filter (\<lambda>c. c \<noteq> placeholder) (node_attr_names g) \<and>
     rows nt = map (\<lambda>n. map (node_attr g n) (column_names nt)) ns \<and>
     select_column nt i = map (\<lambda>n. node_attr g n i) ns"
proof -
  let ?cols = "filter (\<lambda>c. c \<noteq> placeholder) (node_attr_names g)"
  let ?ns = "df_index (from_dict_index (node_dict_of g))"
  let ?nt = "\<lparr>column_names = ?cols, rows = map (\<lambda>n. map (node_attr g n) ?cols) ?ns\<rparr>"
  have nt: "extract_nodes_table g i = Inr ?nt"
    by (rule extract_nodes_table_attr_id[OF i ip ix])
  obtain gt et where "create_from_tables gt et (Some ?nt) s t i = Inr T"
    using r nt by (auto simp: create_from_networkx_graph_def split: sum.splits)
  then have n: "nodes T = Inr ?nt" by (rule nodes_of_created_supplied)
  have "set ?ns = fst ` set (node_dict_of g)"
    by (rule from_dict_index_index_set) (rule node_dict_nonempty)
  then have ns: "set ?ns = set (dict_keys (nx_node g))"
    by (simp add: dict_keys_def flip: set_map)
  have "i \<in> set ?cols" using i ip by simp
  then have sel: "select_column ?nt i = map (\<lambda>n. node_attr g n i) ?ns"
    by (rule select_column_functional)
  show ?thesis
    using n ns sel from_dict_index_simps(3)[of "node_dict_of g"] 
    by (intro exI[of _ ?nt] exI[of _ ?ns]) simp
qed


theorem nodes_table_keeps_id_attribute_witness:
  "\<exists>nt ns. 
     create_from_networkx_graph (NxGraph example_id_attr_graph)
       ''source'' ''target'' ''id'' ''tmp-s'' ''tmp-t'' id =
     Inr \<lparr>graph_type = ''directed'', source_column_name = ''source'',
          target_column_name = ''target'', node_id_column_name = ''id'',
          tables = [(''edges'', \<lparr>column_names = [''source'', ''target''], rows = [[VInt 1, VInt 2]]\<rparr>),
                    (''nodes'', nt)]\<rparr> \<and>
     set ns = {VInt 1, VInt 2, VInt 3} \<and>
     column_names nt = [''id'', ''size''] \<and>
     select_column nt ''id'' = map (\<lambda>n. node_attr example_id_attr_graph n ''id'') ns"
proof -
  let ?nt = "\<lparr>column_names = [''id'', ''size''],
               rows = [[VStr ''a'', VInt 5], [VStr ''c'', VNull], [VNull, VNull]]\<rparr>"
  let ?T = "\<lparr>graph_type = ''directed'', source_column_name = ''source'',
          target_column_name = ''target'', node_id_column_name = ''id'',
          tables = [(''edges'', \<lparr>column_names = [''source'', ''target''], rows = [[VInt 1, VInt 2]]\<rparr>),
                    (''nodes'', ?nt)]\<rparr>"
  have r: "create_from_networkx_graph (NxGraph example_id_attr_graph)
       ''source'' ''target'' ''id'' ''tmp-s'' ''tmp-t'' id = Inr ?T"
    by code_simp
  have names: "node_attr_names example_id_attr_graph = [''id'', ''size'']"
    by code_simp
  have h: "''id'' \<in> set (node_attr_names example_id_attr_graph)" "''id'' \<noteq> placeholder"
    "''index'' \<notin> set (node_attr_names example_id_attr_graph)"
    by (simp_all add: names placeholder_def)
  have n: "nodes ?T = Inr ?nt" by code_simp
  have k: "set (dict_keys (nx_node example_id_attr_graph)) = {VInt 1, VInt 2, VInt 3}"
    by (simp add: example_id_attr_graph_def dict_keys_def)
  from nodes_table_keeps_id_attribute[OF r h] n k names r show ?thesis
    by auto
qed

text \<open>
  The claim C10 as stated fails when the node id column is named like the placeholder:
  the attribute column is dropped with the placeholder, the extracted identifiers are
  renamed into the node id column, and the attribute values 7 and 8 are lost.
\<close>

theorem nodes_table_placeholder_counterexample:
  "create_from_networkx_graph (NxGraph example_placeholder_graph)
     ''source'' ''target'' ''_x_placeholder_x_'' ''tmp-s'' ''tmp-t'' id =
   Inr \<lparr>graph_type = ''directed'', source_column_name = ''source'',
        target_column_name = ''target'', node_id_column_name = ''_x_placeholder_x_'',
        tables = [(''edges'', \<lparr>column_names = [''source'', ''target''], rows = [[VInt 1, VInt 2]]\<rparr>),
                  (''nodes'', \<lparr>column_names = [''_x_placeholder_x_''],
                                rows = [[VInt 1], [VInt 2]]\<rparr>)]\<rparr> \<and>
   node_attr example_placeholder_graph (VInt 1) ''_x_placeholder_x_'' = VInt 7 \<and>
   node_attr example_placeholder_graph (VInt 2) ''_x_placeholder_x_'' = VInt 8"
  by code_simp

text \<open>
  Claim C9, at an input where the code does not do what the claim says. The only edge
  carries an attribute \<open>source\<close> and none named \<open>target\<close>. The attribute column is dropped
  and the temporary source column renamed, but the temporary target column keeps its
  temporary name, because the renaming stands inside the test for a colliding column; the
  conversion then fails in \<open>create_from_tables\<close> for want of a target column.
\<close>

theorem edges_table_one_collision_fails:
  "extract_edges_table example_source_attr_graph ''source'' ''target'' ''tmp-s'' ''tmp-t'' id =
     Inr \<lparr>column_names = [''source'', ''tmp-t''], rows = [[VInt 1, VInt 2]]\<rparr> \<and>
   create_from_networkx_graph (NxGraph example_source_attr_graph)
     ''source'' ''target'' ''id'' ''tmp-s'' ''tmp-t'' id =
     Inl (Exception (missing_column_message ''edges'' ''target'' [''source'', ''tmp-t'']))"
  by code_simp

section \<open>Claims about \<open>as_networkx_graph\<close> and the statistics\<close>






end
